theory Spec2Isabelle
  imports Complex_Main
begin

section \<open>Reader mode: the DOM the script works on\<close>

text \<open>
  The script \<^verbatim>\<open>reader-mode.js\<close> is one immediately invoked function over the host's
  document. The host objects it touches are modelled as follows.

  \<^item> A node is an element (identity, interface, \<^verbatim>\<open>tagName\<close> as the host reports it,
    attribute list, child nodes) or a character-data node (identity, data). Identities
    stand for JavaScript object identity: two references are the same node iff the
    identities agree. The interface tells an SVG element from the others, because
    \<^verbatim>\<open>className\<close> is an object on SVG elements and a string elsewhere.
  \<^item> The live document is the root element with its two containers, \<^verbatim>\<open>document.head\<close>
    and \<^verbatim>\<open>document.body\<close>, which the host guarantees to exist.
  \<^item> \<^verbatim>\<open>innerText\<close> depends on layout, so it is a parameter \<open>vis\<close> of every
    function that reads it; it gives the empty string where the host defines none.
  \<^item> A JavaScript number is an IEEE 754 double. A finite double is modelled by the real
    number it denotes, and every arithmetic operation rounds its exact result to the nearest
    double, ties to even (\<open>roundDouble\<close>). \<^verbatim>\<open>-Infinity\<close> is \<open>None\<close>. Lengths and
    counts are below \<open>2 ^ 53\<close> in the host, so they are doubles as they are, and the
    scores stay inside the range of the normal doubles.
  \<^item> A string is a list of UTF-16 code units below 256, written as characters:
    \<^verbatim>\<open>length\<close> counts them, and \<^verbatim>\<open>toLowerCase\<close> maps A to Z and the capital letters
    of the range 192 to 222. Code units from 256 on are outside the model.
  \<^item> \<^verbatim>\<open>document.title\<close> is read from and written to the document's \<^verbatim>\<open>title\<close>
    element, the first one in tree order, as the host does.
  \<^item> \<^verbatim>\<open>location.reload()\<close> and \<^verbatim>\<open>window.scrollTo\<close> are recorded in the state: the
    number of reload requests and the last scroll position.
\<close>

type_synonym ref = nat
type_synonym attrs = "(string \<times> string) list"

datatype interface = HTMLElement | SVGElement | OtherElement

datatype node =
    Element ref interface string attrs "node list"
  | Text ref string

datatype error = TypeError | NotFoundError

fun nodeId :: "node \<Rightarrow> ref" where
  "nodeId (Element i ifc t a ch) = i"
| "nodeId (Text i d) = i"

fun isElement :: "node \<Rightarrow> bool" where
  "isElement (Element i ifc t a ch) = True"
| "isElement (Text i d) = False"

fun tagName :: "node \<Rightarrow> string" where
  "tagName (Element i ifc t a ch) = t"
| "tagName (Text i d) = []"

fun attributes :: "node \<Rightarrow> attrs" where
  "attributes (Element i ifc t a ch) = a"
| "attributes (Text i d) = []"

fun childNodes :: "node \<Rightarrow> node list" where
  "childNodes (Element i ifc t a ch) = ch"
| "childNodes (Text i d) = []"

fun setChildNodes :: "node \<Rightarrow> node list \<Rightarrow> node" where
  "setChildNodes (Element i ifc t a ch) ch' = Element i ifc t a ch'"
| "setChildNodes (Text i d) ch' = Text i d"

definition getAttribute :: "node \<Rightarrow> string \<Rightarrow> string option" where
  "getAttribute n k = map_of (attributes n) k"

fun updateAttr :: "string \<Rightarrow> string \<Rightarrow> attrs \<Rightarrow> attrs" where
  "updateAttr k v [] = [(k, v)]"
| "updateAttr k v ((k', v') # a) = (if k' = k then (k, v) # a else (k', v') # updateAttr k v a)"

fun setAttribute :: "node \<Rightarrow> string \<Rightarrow> string \<Rightarrow> node" where
  "setAttribute (Element i ifc t a ch) k v = Element i ifc t (updateAttr k v a) ch"
| "setAttribute (Text i d) k v = Text i d"

text \<open>
  The values the script reads from \<^verbatim>\<open>el.className\<close>: a string, or an object that
  \<^verbatim>\<open>+\<close> turns into \<^verbatim>\<open>'[object ...]'\<close>. On an SVG element \<^verbatim>\<open>className\<close> is an
  \<^verbatim>\<open>SVGAnimatedString\<close> object; on every other element it is the class attribute, the
  empty string when absent. \<^verbatim>\<open>el.id\<close> is the id attribute on every element. The
  interface \<open>SVGElement\<close> stands for the elements on which the host defines
  \<^verbatim>\<open>className\<close> in this way, \<open>OtherElement\<close> for the elements that are neither these
  nor HTML elements.
\<close>

datatype jsvalue = JSString string | JSObject string

fun className :: "node \<Rightarrow> jsvalue" where
  "className (Element i SVGElement t a ch) = JSObject ''SVGAnimatedString''"
| "className (Element i HTMLElement t a ch) =
     JSString (case map_of a ''class'' of None \<Rightarrow> [] | Some v \<Rightarrow> v)"
| "className (Element i OtherElement t a ch) =
     JSString (case map_of a ''class'' of None \<Rightarrow> [] | Some v \<Rightarrow> v)"
| "className (Text i d) = JSString []"

definition idAttr :: "node \<Rightarrow> string" where
  "idAttr n = (case getAttribute n ''id'' of None \<Rightarrow> [] | Some v \<Rightarrow> v)"

text \<open>\<^verbatim>\<open>v || ''\<close> on such a value: the empty string is falsy, an object is truthy.\<close>

fun orEmpty :: "jsvalue \<Rightarrow> jsvalue" where
  "orEmpty (JSString s) = JSString (if s = [] then [] else s)"
| "orEmpty (JSObject tag) = JSObject tag"

text \<open>The string that \<^verbatim>\<open>+\<close> makes of such a value.\<close>

fun toString :: "jsvalue \<Rightarrow> string" where
  "toString (JSString s) = s"
| "toString (JSObject tag) = ''[object '' @ tag @ '']''"

text \<open>\<^verbatim>\<open>a || b\<close> on strings: the empty string is falsy.\<close>

definition orElse :: "string \<Rightarrow> string \<Rightarrow> string" where
  "orElse a b = (if a = [] then b else a)"

text \<open>\<^verbatim>\<open>a || b\<close> on node references: \<^verbatim>\<open>null\<close> is falsy.\<close>

definition orNode :: "node option \<Rightarrow> node option \<Rightarrow> node option" where
  "orNode a b = (case a of Some n \<Rightarrow> Some n | None \<Rightarrow> b)"

subsection \<open>Strings and the regular expressions of the script\<close>

definition upperLetters :: string where
  "upperLetters =
     ''ABCDEFGHIJKLMNOPQRSTUVWXYZ'' @
     [CHR 0xC0, CHR 0xC1, CHR 0xC2, CHR 0xC3, CHR 0xC4, CHR 0xC5, CHR 0xC6, CHR 0xC7,
      CHR 0xC8, CHR 0xC9, CHR 0xCA, CHR 0xCB, CHR 0xCC, CHR 0xCD, CHR 0xCE, CHR 0xCF,
      CHR 0xD0, CHR 0xD1, CHR 0xD2, CHR 0xD3, CHR 0xD4, CHR 0xD5, CHR 0xD6, CHR 0xD8,
      CHR 0xD9, CHR 0xDA, CHR 0xDB, CHR 0xDC, CHR 0xDD, CHR 0xDE]"

definition lowerLetters :: string where
  "lowerLetters =
     ''abcdefghijklmnopqrstuvwxyz'' @
     [CHR 0xE0, CHR 0xE1, CHR 0xE2, CHR 0xE3, CHR 0xE4, CHR 0xE5, CHR 0xE6, CHR 0xE7,
      CHR 0xE8, CHR 0xE9, CHR 0xEA, CHR 0xEB, CHR 0xEC, CHR 0xED, CHR 0xEE, CHR 0xEF,
      CHR 0xF0, CHR 0xF1, CHR 0xF2, CHR 0xF3, CHR 0xF4, CHR 0xF5, CHR 0xF6, CHR 0xF8,
      CHR 0xF9, CHR 0xFA, CHR 0xFB, CHR 0xFC, CHR 0xFD, CHR 0xFE]"

definition lowerChar :: "char \<Rightarrow> char" where
  "lowerChar c = (case map_of (zip upperLetters lowerLetters) c of Some d \<Rightarrow> d | None \<Rightarrow> c)"

text \<open>The host builds \<^verbatim>\<open>tagName\<close> by upper-casing the letters a to z only.\<close>

definition upperChar :: "char \<Rightarrow> char" where
  "upperChar c =
     (case map_of (zip ''abcdefghijklmnopqrstuvwxyz'' ''ABCDEFGHIJKLMNOPQRSTUVWXYZ'') c of
        Some d \<Rightarrow> d | None \<Rightarrow> c)"

definition toLowerCase :: "string \<Rightarrow> string" where
  "toLowerCase s = map lowerChar s"

definition toUpperCase :: "string \<Rightarrow> string" where
  "toUpperCase s = map upperChar s"

fun startsWith :: "string \<Rightarrow> string \<Rightarrow> bool" where
  "startsWith s [] = True"
| "startsWith [] (p # ps) = False"
| "startsWith (c # cs) (p # ps) = (c = p \<and> startsWith cs ps)"

fun stringIncludes :: "string \<Rightarrow> string \<Rightarrow> bool" where
  "stringIncludes [] p = (p = [])"
| "stringIncludes (c # cs) p = (startsWith (c # cs) p \<or> stringIncludes cs p)"

text \<open>
  Each regular expression of the script is an alternation of literal words, and
  \<^verbatim>\<open>test\<close> looks for a match anywhere in the string: it holds iff one of the words
  occurs in it.
\<close>

definition regexTest :: "string list \<Rightarrow> string \<Rightarrow> bool" where
  "regexTest words s = list_ex (stringIncludes s) words"

definition negativeWords :: "string list" where
  "negativeWords = [''comment'', ''sidebar'', ''widget'', ''footer'', ''nav'', ''menu'',
                    ''ad'', ''social'', ''share'', ''related'']"

definition positiveWords :: "string list" where
  "positiveWords = [''article'', ''content'', ''post'', ''entry'', ''body'', ''main'',
                    ''text'', ''story'']"

definition removeWords :: "string list" where
  "removeWords = [''ad-'', ''ads-'', ''advert'', ''sidebar'', ''widget'', ''share'',
                  ''social'', ''comment'', ''related'', ''popup'', ''modal'', ''overlay'',
                  ''cookie'', ''banner'']"

definition removeTags :: "string list" where
  "removeTags = [''script'', ''style'', ''iframe'', ''nav'', ''aside'', ''footer'', ''header'',
                 ''form'', ''button'', ''input'', ''select'', ''textarea'', ''noscript'']"

text \<open>\<^verbatim>\<open>((el.className || '') + ' ' + (el.id || '')).toLowerCase()\<close>\<close>

definition classId :: "node \<Rightarrow> string" where
  "classId el =
     toLowerCase (toString (orEmpty (className el)) @ '' '' @ orElse (idAttr el) [])"

subsection \<open>Tree order and selectors\<close>

fun descendants :: "node \<Rightarrow> node list" where
  "descendants (Text i d) = []"
| "descendants (Element i ifc t a ch) = concat (map (\<lambda>c. c # descendants c) ch)"

definition inclusiveDescendants :: "node \<Rightarrow> node list" where
  "inclusiveDescendants n = n # descendants n"

text \<open>
  The selectors the script uses: a list of type selectors (\<^verbatim>\<open>'div, section, td'\<close>),
  an attribute selector (\<^verbatim>\<open>'[role="main"]'\<close>) and \<^verbatim>\<open>'*'\<close>. A type selector
  compares with the lower-case tag name. Only elements match.
\<close>

datatype selector = Tags "string list" | Attr string string | Universal

fun matches :: "selector \<Rightarrow> node \<Rightarrow> bool" where
  "matches sel (Text i d) = False"
| "matches (Tags ts) (Element i ifc t a ch) = (toLowerCase t \<in> set ts)"
| "matches (Attr k v) (Element i ifc t a ch) = (map_of a k = Some v)"
| "matches Universal (Element i ifc t a ch) = True"

text \<open>\<^verbatim>\<open>node.querySelectorAll(sel)\<close>: the matching descendants, in tree order, as a static list.\<close>

definition querySelectorAll :: "node \<Rightarrow> selector \<Rightarrow> node list" where
  "querySelectorAll n sel = filter (matches sel) (descendants n)"

subsection \<open>The document\<close>

record dom =
  htmlId :: ref
  htmlAttrs :: attrs
  headId :: ref
  headAttrs :: attrs
  headChildren :: "node list"
  bodyId :: ref
  bodyAttrs :: attrs
  bodyChildren :: "node list"
  detached :: "node list"
  nextId :: ref
  reloads :: nat
  scrollPos :: "(int \<times> int) option"

definition headElement :: "dom \<Rightarrow> node" where
  "headElement s = Element (headId s) HTMLElement ''HEAD'' (headAttrs s) (headChildren s)"

definition bodyElement :: "dom \<Rightarrow> node" where
  "bodyElement s = Element (bodyId s) HTMLElement ''BODY'' (bodyAttrs s) (bodyChildren s)"

definition documentElement :: "dom \<Rightarrow> node" where
  "documentElement s = Element (htmlId s) HTMLElement ''HTML'' (htmlAttrs s) [headElement s, bodyElement s]"

text \<open>\<^verbatim>\<open>document.querySelectorAll\<close> and \<^verbatim>\<open>document.querySelector\<close> range over every
  element of the document, the root included.\<close>

definition document_querySelectorAll :: "dom \<Rightarrow> selector \<Rightarrow> node list" where
  "document_querySelectorAll s sel = filter (matches sel) (inclusiveDescendants (documentElement s))"

definition document_querySelector :: "dom \<Rightarrow> selector \<Rightarrow> node option" where
  "document_querySelector s sel = find (matches sel) (inclusiveDescendants (documentElement s))"

text \<open>
  \<^verbatim>\<open>document.title\<close>, read: the text children of the first \<^verbatim>\<open>title\<close> element of the
  document in tree order, with ASCII whitespace stripped at both ends and every run of
  it collapsed into one space; the empty string when there is no such element.
\<close>

fun isTitleElement :: "node \<Rightarrow> bool" where
  "isTitleElement (Element i HTMLElement t a ch) = (toLowerCase t = ''title'')"
| "isTitleElement (Element i SVGElement t a ch) = False"
| "isTitleElement (Element i OtherElement t a ch) = False"
| "isTitleElement (Text i d) = False"

definition titleElement :: "dom \<Rightarrow> node option" where
  "titleElement s = find isTitleElement (inclusiveDescendants (documentElement s))"

fun childTextContent :: "node list \<Rightarrow> string" where
  "childTextContent [] = []"
| "childTextContent (Text i d # cs) = d @ childTextContent cs"
| "childTextContent (Element i ifc t a ch # cs) = childTextContent cs"

definition isAsciiWhitespace :: "char \<Rightarrow> bool" where
  "isAsciiWhitespace c = (c \<in> set [CHR 0x09, CHR 0x0A, CHR 0x0C, CHR 0x0D, CHR 0x20])"

fun collapseFrom :: "bool \<Rightarrow> string \<Rightarrow> string" where
  "collapseFrom inRun [] = []"
| "collapseFrom inRun (c # cs) =
     (if isAsciiWhitespace c
      then (if inRun then collapseFrom True cs else CHR '' '' # collapseFrom True cs)
      else c # collapseFrom False cs)"

definition stripAndCollapse :: "string \<Rightarrow> string" where
  "stripAndCollapse str =
     rev (dropWhile isAsciiWhitespace (rev (dropWhile isAsciiWhitespace (collapseFrom False str))))"

definition document_title :: "dom \<Rightarrow> string" where
  "document_title s =
     (case titleElement s of
        None \<Rightarrow> []
      | Some el \<Rightarrow> stripAndCollapse (childTextContent (childNodes el)))"

subsection \<open>Numbers\<close>

text \<open>
  \<open>roundDouble x\<close> is the double nearest to \<open>x\<close>: with \<open>2 ^ e \<le> \<bar>x\<bar> < 2 ^ (e + 1)\<close>, the
  doubles around \<open>x\<close> are the multiples of \<open>2 ^ (e - 52)\<close>, and a value halfway between two
  of them goes to the one with the even multiplier.
\<close>

fun bitLength :: "nat \<Rightarrow> nat" where
  "bitLength n = (if n = 0 then 0 else Suc (bitLength (n div 2)))"

definition binaryExponent :: "real \<Rightarrow> int" where
  "binaryExponent x =
     (if 1 \<le> x then int (bitLength (nat \<lfloor>x\<rfloor>)) - 1
      else - int (bitLength (nat (\<lceil>1 / x\<rceil> - 1))))"

definition scaleBy :: "real \<Rightarrow> int \<Rightarrow> real" where
  "scaleBy x k = (if 0 \<le> k then x * 2 ^ nat k else x / 2 ^ nat (- k))"

definition roundTiesToEven :: "real \<Rightarrow> int" where
  "roundTiesToEven x =
     (let f = \<lfloor>x\<rfloor>; r = x - of_int f
      in if r < 1 / 2 then f
         else if 1 / 2 < r then f + 1
         else if even f then f else f + 1)"

definition roundDouble :: "real \<Rightarrow> real" where
  "roundDouble x =
     (if x = 0 then 0
      else (let e = binaryExponent \<bar>x\<bar>;
                m = roundTiesToEven (scaleBy \<bar>x\<bar> (52 - e))
            in sgn x * scaleBy (of_int m) (e - 52)))"

text \<open>\<^verbatim>\<open>x + y\<close>, \<^verbatim>\<open>x - y\<close>, \<^verbatim>\<open>x * y\<close> and \<^verbatim>\<open>x / y\<close> on doubles.\<close>

definition addDouble :: "real \<Rightarrow> real \<Rightarrow> real" where
  "addDouble x y = roundDouble (x + y)"

definition subDouble :: "real \<Rightarrow> real \<Rightarrow> real" where
  "subDouble x y = roundDouble (x - y)"

definition mulDouble :: "real \<Rightarrow> real \<Rightarrow> real" where
  "mulDouble x y = roundDouble (x * y)"

definition divDouble :: "real \<Rightarrow> real \<Rightarrow> real" where
  "divDouble x y = roundDouble (x / y)"

section \<open>Content locator (lines 10 to 46)\<close>

text \<open>\<^verbatim>\<open>s > bestScore\<close>, where \<open>None\<close> is \<^verbatim>\<open>-Infinity\<close>.\<close>

fun exceeds :: "real \<Rightarrow> real option \<Rightarrow> bool" where
  "exceeds s None = True"
| "exceeds s (Some b) = (s > b)"

definition scoreNode :: "(node \<Rightarrow> string) \<Rightarrow> node \<Rightarrow> real" where
  "scoreNode vis node =
     (let score = 0;
          text = orElse (vis node) [];
          score = addDouble score (min (divDouble (real (length text)) 100) 20);
          score = addDouble score
                    (mulDouble (real (length (querySelectorAll node (Tags [''p''])))) 3);
          tag = toLowerCase (tagName node);
          score = (if tag = ''nav'' \<or> tag = ''aside'' \<or> tag = ''footer'' \<or> tag = ''header''
                   then subDouble score 50 else score);
          ci = toLowerCase (toString (orEmpty (className node)) @ '' '' @ orElse (idAttr node) []);
          score = (if regexTest negativeWords ci then subDouble score 30 else score);
          score = (if regexTest positiveWords ci then addDouble score 25 else score)
      in score)"

text \<open>The loop of lines 35 to 41, with its two variables \<^verbatim>\<open>bestScore\<close> and \<^verbatim>\<open>content\<close>.\<close>

fun scanCandidates :: "(node \<Rightarrow> string) \<Rightarrow> node list \<Rightarrow> real option \<Rightarrow> node option \<Rightarrow> node option" where
  "scanCandidates vis [] bestScore content = content"
| "scanCandidates vis (c # cs) bestScore content =
     (let s = scoreNode vis c
      in if exceeds s bestScore then scanCandidates vis cs (Some s) (Some c)
         else scanCandidates vis cs bestScore content)"

definition semanticContent :: "dom \<Rightarrow> node option" where
  "semanticContent s =
     orNode (orNode (document_querySelector s (Tags [''article'']))
                    (document_querySelector s (Attr ''role'' ''main'')))
            (document_querySelector s (Tags [''main'']))"

definition candidates :: "dom \<Rightarrow> node list" where
  "candidates s = document_querySelectorAll s (Tags [''div'', ''section'', ''td''])"

definition locateContent :: "(node \<Rightarrow> string) \<Rightarrow> dom \<Rightarrow> node" where
  "locateContent vis s =
     (let content = semanticContent s;
          content = (case content of
                       None \<Rightarrow> scanCandidates vis (candidates s) None None
                     | Some c \<Rightarrow> Some c);
          content = (case content of None \<Rightarrow> bodyElement s | Some c \<Rightarrow> c)
      in content)"

section \<open>Title extraction (lines 48 to 53)\<close>

definition extractTitle :: "(node \<Rightarrow> string) \<Rightarrow> dom \<Rightarrow> string" where
  "extractTitle vis s =
     (let t = orElse (document_title s) [];
          h1 = document_querySelector s (Tags [''h1''])
      in case h1 of
           None \<Rightarrow> t
         | Some h \<Rightarrow> if vis h \<noteq> [] then vis h else t)"

section \<open>Cloning and cleaning (lines 55 to 76)\<close>

text \<open>
  \<^verbatim>\<open>content.cloneNode(true)\<close> builds a deep copy out of new objects: every node of the
  copy gets an identity from the supply \<open>nextId\<close>, in tree order.
\<close>

fun cloneTree :: "ref \<Rightarrow> node \<Rightarrow> node \<times> ref"
  and cloneList :: "ref \<Rightarrow> node list \<Rightarrow> node list \<times> ref" where
  "cloneTree k (Text i d) = (Text k d, Suc k)"
| "cloneTree k (Element i ifc t a ch) =
     (let (ch', k') = cloneList (Suc k) ch in (Element k ifc t a ch', k'))"
| "cloneList k [] = ([], k)"
| "cloneList k (c # cs) =
     (let (c', k1) = cloneTree k c;
          (cs', k2) = cloneList k1 cs
      in (c' # cs', k2))"

definition cloneNode :: "node \<Rightarrow> dom \<Rightarrow> node \<times> dom" where
  "cloneNode content s =
     (let (clone, k) = cloneTree (nextId s) content in (clone, s\<lparr>nextId := k\<rparr>))"

text \<open>
  While the clone is cleaned, the objects of the page are the tree held by the variable
  \<^verbatim>\<open>clone\<close>, the live document and the detached trees. A reference taken from a node
  list is an identity; its parent is looked up in all of them.
\<close>

fun firstSome :: "'a option list \<Rightarrow> 'a option" where
  "firstSome [] = None"
| "firstSome (None # xs) = firstSome xs"
| "firstSome (Some x # xs) = Some x"

fun parentOf :: "ref \<Rightarrow> node \<Rightarrow> ref option" where
  "parentOf c (Text i d) = None"
| "parentOf c (Element i ifc t a ch) =
     (if list_ex (\<lambda>n. nodeId n = c) ch then Some i else firstSome (map (parentOf c) ch))"

definition allTrees :: "node \<Rightarrow> dom \<Rightarrow> node list" where
  "allTrees clone s = clone # documentElement s # detached s"

text \<open>\<^verbatim>\<open>el.parentNode\<close>, \<open>None\<close> for \<^verbatim>\<open>null\<close>.\<close>

definition parentNode :: "node \<Rightarrow> dom \<Rightarrow> ref \<Rightarrow> ref option" where
  "parentNode clone s c = firstSome (map (parentOf c) (allTrees clone s))"

definition nodeById :: "node \<Rightarrow> dom \<Rightarrow> ref \<Rightarrow> node option" where
  "nodeById clone s c =
     find (\<lambda>n. nodeId n = c) (concat (map inclusiveDescendants (allTrees clone s)))"

text \<open>Unlinking the node with identity \<open>c\<close> from the child list it is in.\<close>

fun removeNode :: "ref \<Rightarrow> node \<Rightarrow> node" where
  "removeNode c (Text i d) = Text i d"
| "removeNode c (Element i ifc t a ch) =
     Element i ifc t a (map (removeNode c) (filter (\<lambda>n. nodeId n \<noteq> c) ch))"

text \<open>
  \<^verbatim>\<open>p.removeChild(c)\<close>: the host raises \<^verbatim>\<open>NotFoundError\<close> unless \<open>p\<close> is the parent
  of \<open>c\<close>; otherwise \<open>c\<close> leaves its parent's child list and is the root of a detached
  tree from then on. Identities are unique, so dropping the child with identity \<open>c\<close>
  from every child list drops it from its parent's. The head and the body themselves stay
  in place: the script removes nodes below the clone and children of the two containers
  only.
\<close>

definition removeChild :: "ref \<Rightarrow> ref \<Rightarrow> node \<times> dom \<Rightarrow> error + node \<times> dom" where
  "removeChild p c st =
     (case st of (clone, s) \<Rightarrow>
        if parentNode clone s c \<noteq> Some p then Inl NotFoundError
        else Inr (removeNode c clone,
                  s\<lparr>headChildren := childNodes (removeNode c (headElement s)),
                    bodyChildren := childNodes (removeNode c (bodyElement s)),
                    detached := map (removeNode c) (detached s)
                                @ (case nodeById clone s c of None \<Rightarrow> [] | Some n \<Rightarrow> [n])\<rparr>))"

text \<open>
  Lines 61 to 63, \<^verbatim>\<open>els[j].parentNode.removeChild(els[j])\<close> for each entry in the order
  given; a \<^verbatim>\<open>null\<close> parent raises \<^verbatim>\<open>TypeError\<close>.
\<close>

fun removeEach :: "ref list \<Rightarrow> node \<times> dom \<Rightarrow> error + node \<times> dom" where
  "removeEach [] st = Inr st"
| "removeEach (e # es) st =
     (case parentNode (fst st) (snd st) e of
        None \<Rightarrow> Inl TypeError
      | Some p \<Rightarrow>
          (case removeChild p e st of
             Inl err \<Rightarrow> Inl err
           | Inr st' \<Rightarrow> removeEach es st'))"

text \<open>Lines 59 to 64: for each tag, the matches of the clone are removed from last to first.\<close>

fun removeByTags :: "string list \<Rightarrow> node \<times> dom \<Rightarrow> error + node \<times> dom" where
  "removeByTags [] st = Inr st"
| "removeByTags (t # ts) st =
     (let els = querySelectorAll (fst st) (Tags [t])
      in case removeEach (rev (map nodeId els)) st of
           Inl err \<Rightarrow> Inl err
         | Inr st' \<Rightarrow> removeByTags ts st')"

text \<open>
  Lines 69 to 75, one iteration. The entry \<open>el\<close> is the element as it was when the list
  was built: the script reads its class and id, which nothing changes, and uses its
  identity for the parent lookup and the removal.
\<close>

definition removeIfListed :: "node \<Rightarrow> node \<times> dom \<Rightarrow> error + node \<times> dom" where
  "removeIfListed el st =
     (let ci = toLowerCase (toString (orEmpty (className el)) @ '' '' @ orElse (idAttr el) [])
      in if regexTest removeWords ci then
           (case parentNode (fst st) (snd st) (nodeId el) of
              None \<Rightarrow> Inr st
            | Some p \<Rightarrow> removeChild p (nodeId el) st)
         else Inr st)"

fun removeByClass :: "node list \<Rightarrow> node \<times> dom \<Rightarrow> error + node \<times> dom" where
  "removeByClass [] st = Inr st"
| "removeByClass (el # els) st =
     (case removeIfListed el st of
        Inl err \<Rightarrow> Inl err
      | Inr st' \<Rightarrow> removeByClass els st')"

definition cleanClone :: "node \<Rightarrow> dom \<Rightarrow> error + node \<times> dom" where
  "cleanClone content s =
     (let st = cloneNode content s
      in case removeByTags removeTags st of
           Inl err \<Rightarrow> Inl err
         | Inr st' \<Rightarrow>
             (let allEls = querySelectorAll (fst st') Universal
              in removeByClass allEls st'))"

section \<open>Rebuilding the document (lines 82 to 124)\<close>

text \<open>\<^verbatim>\<open>while (document.head.firstChild) document.head.removeChild(document.head.firstChild)\<close>\<close>

function clearHead :: "dom \<Rightarrow> dom" where
  "clearHead s =
     (case headChildren s of
        [] \<Rightarrow> s
      | c # cs \<Rightarrow> clearHead (s\<lparr>headChildren := cs, detached := detached s @ [c]\<rparr>))"
  by pat_completeness auto
termination
  by (relation "measure (\<lambda>s. length (headChildren s))") auto

function clearBody :: "dom \<Rightarrow> dom" where
  "clearBody s =
     (case bodyChildren s of
        [] \<Rightarrow> s
      | c # cs \<Rightarrow> clearBody (s\<lparr>bodyChildren := cs, detached := detached s @ [c]\<rparr>))"
  by pat_completeness auto
termination
  by (relation "measure (\<lambda>s. length (bodyChildren s))") auto

text \<open>\<^verbatim>\<open>document.createElement(tag)\<close>: a new element without parent, attributes or children.\<close>

definition createElement :: "string \<Rightarrow> dom \<Rightarrow> node \<times> dom" where
  "createElement tag s = (Element (nextId s) HTMLElement (toUpperCase tag) [] [], s\<lparr>nextId := Suc (nextId s)\<rparr>)"

text \<open>
  \<^verbatim>\<open>el.textContent = str\<close> on an element that is not linked anywhere: its children are
  replaced by one new text node, or by nothing when the string is empty.
\<close>

definition setTextContent :: "node \<Rightarrow> string \<Rightarrow> dom \<Rightarrow> node \<times> dom" where
  "setTextContent el str s =
     (if str = [] then (setChildNodes el [], s\<lparr>detached := detached s @ childNodes el\<rparr>)
      else (setChildNodes el [Text (nextId s) str],
            s\<lparr>detached := detached s @ childNodes el, nextId := Suc (nextId s)\<rparr>))"

text \<open>\<^verbatim>\<open>document.head.appendChild(el)\<close> and \<^verbatim>\<open>document.body.appendChild(el)\<close> for a node
  without parent.\<close>

definition head_appendChild :: "node \<Rightarrow> dom \<Rightarrow> dom" where
  "head_appendChild el s = s\<lparr>headChildren := headChildren s @ [el]\<rparr>"

definition body_appendChild :: "node \<Rightarrow> dom \<Rightarrow> dom" where
  "body_appendChild el s = s\<lparr>bodyChildren := bodyChildren s @ [el]\<rparr>"

definition styleText :: string where
  "styleText =
     ''body { font-family: Georgia, \"Times New Roman\", serif; line-height: 1.8; max-width: 680px; margin: 40px auto; padding: 0 20px; color: #333; background: #fafafa; }'' @
     ''@media (prefers-color-scheme: dark) { body { color: #d4d4d4; background: #1a1a1a; } a { color: #6db3f2; } }'' @
     ''h1 { font-size: 1.8em; line-height: 1.3; margin-bottom: 0.5em; }'' @
     ''img { max-width: 100%; height: auto; }'' @
     ''pre, code { font-size: 0.9em; overflow-x: auto; }'' @
     ''blockquote { border-left: 3px solid #ccc; margin-left: 0; padding-left: 1em; color: #666; }'' @
     ''@media (prefers-color-scheme: dark) { blockquote { border-left-color: #555; color: #aaa; } }''"

text \<open>
  \<^verbatim>\<open>document.title = str\<close>: the host replaces the children of the document's
  \<^verbatim>\<open>title\<close> element, the first in tree order wherever it is, by one new text node (by
  nothing when the string is empty); when the document has no \<^verbatim>\<open>title\<close> element it
  appends a new one to the head first. \<open>writeFirst\<close> gives the tree with the new
  children in the first node that satisfies \<open>P\<close>, and the children they replace.
\<close>

fun writeFirst :: "(node \<Rightarrow> bool) \<Rightarrow> node list \<Rightarrow> node \<Rightarrow> node \<times> node list option"
  and writeFirstList :: "(node \<Rightarrow> bool) \<Rightarrow> node list \<Rightarrow> node list \<Rightarrow> node list \<times> node list option" where
  "writeFirst P new (Text i d) = (Text i d, None)"
| "writeFirst P new (Element i ifc t a ch) =
     (if P (Element i ifc t a ch) then (Element i ifc t a new, Some ch)
      else (let (ch', r) = writeFirstList P new ch in (Element i ifc t a ch', r)))"
| "writeFirstList P new [] = ([], None)"
| "writeFirstList P new (c # cs) =
     (let (c', r) = writeFirst P new c
      in case r of
           Some old \<Rightarrow> (c' # cs, Some old)
         | None \<Rightarrow> (let (cs', r') = writeFirstList P new cs in (c' # cs', r')))"

definition set_document_title :: "string \<Rightarrow> dom \<Rightarrow> dom" where
  "set_document_title str s =
     (let new = (if str = [] then [] else [Text (nextId s) str]);
          s = s\<lparr>nextId := nextId s + length new\<rparr>
      in case writeFirstList isTitleElement new (headChildren s) of
           (h, Some old) \<Rightarrow> s\<lparr>headChildren := h, detached := detached s @ old\<rparr>
         | (h, None) \<Rightarrow>
             (case writeFirstList isTitleElement new (bodyChildren s) of
                (b, Some old) \<Rightarrow> s\<lparr>bodyChildren := b, detached := detached s @ old\<rparr>
              | (b, None) \<Rightarrow>
                  s\<lparr>headChildren :=
                      headChildren s @ [Element (nextId s) HTMLElement ''TITLE'' [] new],
                    nextId := Suc (nextId s)\<rparr>))"

text \<open>Lines 83 to 107.\<close>

definition rebuildHead :: "string \<Rightarrow> dom \<Rightarrow> dom" where
  "rebuildHead ttl s =
     (let s = clearHead s;
          (meta1, s) = createElement ''meta'' s;
          meta1 = setAttribute meta1 ''charset'' ''UTF-8'';
          s = head_appendChild meta1 s;
          (meta2, s) = createElement ''meta'' s;
          meta2 = setAttribute meta2 ''name'' ''viewport'';
          meta2 = setAttribute meta2 ''content'' ''width=device-width, initial-scale=1.0'';
          s = head_appendChild meta2 s;
          s = set_document_title (''Reader: '' @ ttl) s;
          (style, s) = createElement ''style'' s;
          (style, s) = setTextContent style styleText s;
          s = head_appendChild style s
      in s)"

text \<open>
  \<^verbatim>\<open>while (clone.firstChild) document.body.appendChild(clone.firstChild)\<close>: appending
  a node that has a parent takes it out of that parent's child list first.
\<close>

function transferChildren :: "node \<times> dom \<Rightarrow> node \<times> dom" where
  "transferChildren st =
     (case childNodes (fst st) of
        [] \<Rightarrow> st
      | c # cs \<Rightarrow> transferChildren (setChildNodes (fst st) cs, body_appendChild c (snd st)))"
  by pat_completeness auto
termination
proof (relation "measure (\<lambda>st. length (childNodes (fst st)))")
  show "wf (measure (\<lambda>st. length (childNodes (fst st))))"
    by simp
next
  fix st :: "node \<times> dom" and c cs
  assume "childNodes (fst st) = c # cs"
  then show "((setChildNodes (fst st) cs, body_appendChild c (snd st)), st)
             \<in> measure (\<lambda>st. length (childNodes (fst st)))"
    by (cases "fst st") auto
qed

text \<open>Lines 110 to 124.\<close>

definition rebuildBody :: "string \<Rightarrow> node \<times> dom \<Rightarrow> dom" where
  "rebuildBody ttl st =
     (let clone = fst st;
          s = clearBody (snd st);
          (heading, s) = createElement ''h1'' s;
          (heading, s) = setTextContent heading ttl s;
          s = body_appendChild heading s;
          (clone, s) = transferChildren (clone, s);
          s = s\<lparr>bodyAttrs := updateAttr ''data-reader-mode'' ''true'' (bodyAttrs s)\<rparr>;
          s = s\<lparr>scrollPos := Some (0, 0)\<rparr>
      in s)"

section \<open>The script\<close>

text \<open>Line 5: \<^verbatim>\<open>document.body.getAttribute('data-reader-mode') === 'true'\<close>\<close>

definition inReaderMode :: "dom \<Rightarrow> bool" where
  "inReaderMode s = (getAttribute (bodyElement s) ''data-reader-mode'' = Some ''true'')"

text \<open>\<^verbatim>\<open>location.reload()\<close> is recorded by counting the requests.\<close>

definition run :: "(node \<Rightarrow> string) \<Rightarrow> dom \<Rightarrow> error + dom" where
  "run vis s =
     (if inReaderMode s then Inr (s\<lparr>reloads := Suc (reloads s)\<rparr>)
      else
        (let content = locateContent vis s;
             ttl = extractTitle vis s
         in case cleanClone content s of
              Inl err \<Rightarrow> Inl err
            | Inr st \<Rightarrow> Inr (rebuildBody ttl (fst st, rebuildHead ttl (snd st)))))"

section \<open>Definitions used to state the properties\<close>

text \<open>\<^verbatim>\<open>node.textContent\<close>: the data of the text nodes below a node, in tree order.\<close>

fun textContent :: "node \<Rightarrow> string" where
  "textContent (Text i d) = d"
| "textContent (Element i ifc t a ch) = concat (map textContent ch)"

text \<open>
  The score as the specification words it, in exact arithmetic: the capped text density,
  three points per paragraph descendant, the penalty for an own tag of the boilerplate
  kind, the penalty and the bonus for words in the lower-case class and id string.
\<close>

definition scoreFormula :: "nat \<Rightarrow> nat \<Rightarrow> string \<Rightarrow> string \<Rightarrow> real" where
  "scoreFormula visibleTextLength paragraphs ownTag ci =
     min (real visibleTextLength / 100) 20
     + 3 * real paragraphs
     - (if ownTag \<in> {''nav'', ''aside'', ''footer'', ''header''} then 50 else 0)
     - (if regexTest [''comment'', ''sidebar'', ''widget'', ''footer'', ''nav'', ''menu'',
                      ''ad'', ''social'', ''share'', ''related''] ci then 30 else 0)
     + (if regexTest [''article'', ''content'', ''post'', ''entry'', ''body'', ''main'',
                      ''text'', ''story''] ci then 25 else 0)"

text \<open>
  The same sum taken term by term from left to right in double arithmetic, starting
  from zero: the quotient, the product and every partial sum are rounded to the nearest
  double.
\<close>

definition scoreFormulaDouble :: "nat \<Rightarrow> nat \<Rightarrow> string \<Rightarrow> string \<Rightarrow> real" where
  "scoreFormulaDouble visibleTextLength paragraphs ownTag ci =
     (let density = roundDouble (0 + min (roundDouble (real visibleTextLength / 100)) 20);
          withParagraphs = roundDouble (density + roundDouble (real paragraphs * 3));
          withTag = (if ownTag \<in> {''nav'', ''aside'', ''footer'', ''header''}
                     then roundDouble (withParagraphs - 50) else withParagraphs);
          withPenalty =
            (if regexTest [''comment'', ''sidebar'', ''widget'', ''footer'', ''nav'', ''menu'',
                           ''ad'', ''social'', ''share'', ''related''] ci
             then roundDouble (withTag - 30) else withTag)
      in if regexTest [''article'', ''content'', ''post'', ''entry'', ''body'', ''main'',
                       ''text'', ''story''] ci
         then roundDouble (withPenalty + 25) else withPenalty)"

definition paragraphDescendants :: "node \<Rightarrow> node list" where
  "paragraphDescendants n =
     filter (\<lambda>d. isElement d \<and> toLowerCase (tagName d) = ''p'') (descendants n)"

text \<open>The class attribute of a node, the empty string when absent, and whether the node
  is an SVG element.\<close>

definition classAttribute :: "node \<Rightarrow> string" where
  "classAttribute n = (case getAttribute n ''class'' of None \<Rightarrow> [] | Some v \<Rightarrow> v)"


text \<open>The scoring function with the own-tag penalty of lines 17 to 19 deleted.\<close>

definition scoreWithoutOwnTagPenalty :: "(node \<Rightarrow> string) \<Rightarrow> node \<Rightarrow> real" where
  "scoreWithoutOwnTagPenalty vis node =
     (let score = 0;
          text = orElse (vis node) [];
          score = addDouble score (min (divDouble (real (length text)) 100) 20);
          score = addDouble score
                    (mulDouble (real (length (querySelectorAll node (Tags [''p''])))) 3);
          ci = toLowerCase (toString (orEmpty (className node)) @ '' '' @ orElse (idAttr node) []);
          score = (if regexTest negativeWords ci then subDouble score 30 else score);
          score = (if regexTest positiveWords ci then addDouble score 25 else score)
      in score)"

text \<open>The loop of lines 35 to 41 over an arbitrary scoring function.\<close>

fun scanWith :: "(node \<Rightarrow> real) \<Rightarrow> node list \<Rightarrow> real option \<Rightarrow> node option \<Rightarrow> node option" where
  "scanWith score [] bestScore content = content"
| "scanWith score (c # cs) bestScore content =
     (let s = score c
      in if exceeds s bestScore then scanWith score cs (Some s) (Some c)
         else scanWith score cs bestScore content)"


text \<open>
  A node without its children: identity, tag and attributes are what selectors and the
  class and id test read, and removals below a node leave them as they are.
\<close>

fun shell :: "node \<Rightarrow> node" where
  "shell (Element i ifc t a ch) = Element i ifc t a []"
| "shell (Text i d) = Text i d"

text \<open>The test of line 71 on an element.\<close>

definition listed :: "node \<Rightarrow> bool" where
  "listed el = regexTest removeWords (classId el)"

text \<open>
  The identity supply is fresh for a document when every node of the live document has
  an identity below it: a new object is never one of the existing ones.
\<close>

definition freshSupply :: "dom \<Rightarrow> bool" where
  "freshSupply s = (\<forall>d \<in> set (inclusiveDescendants (documentElement s)). nodeId d < nextId s)"

definition liveBelow :: "ref \<Rightarrow> dom \<Rightarrow> bool" where
  "liveBelow k s = (\<forall>d \<in> set (inclusiveDescendants (documentElement s)). nodeId d < k)"

definition cloneAbove :: "ref \<Rightarrow> node \<Rightarrow> bool" where
  "cloneAbove k clone = (\<forall>d \<in> set (descendants clone). k \<le> nodeId d)"

text \<open>The state without the detached trees and the identity supply: the live document,
  the reload requests and the scroll position.\<close>

definition liveDocument :: "dom \<Rightarrow> dom" where
  "liveDocument s = s\<lparr>detached := [], nextId := 0\<rparr>"

text \<open>
  The identities below a node in tree order, and the same for a list of children.
  \<open>removedLast es ids\<close> says that the list \<open>es\<close> can be removed in its order from a tree
  with the identities \<open>ids\<close>: each entry is there, and the entries after it come before
  it in tree order.
\<close>

definition nodeIds :: "node \<Rightarrow> ref list" where
  "nodeIds t = map nodeId (descendants t)"

definition childIds :: "node list \<Rightarrow> ref list" where
  "childIds ch = concat (map (\<lambda>c. nodeId c # nodeIds c) ch)"

fun removedLast :: "ref list \<Rightarrow> ref list \<Rightarrow> bool" where
  "removedLast [] ids = True"
| "removedLast (x # later) ids =
     (x \<in> set ids \<and> set later \<subseteq> set (takeWhile (\<lambda>i. i \<noteq> x) ids) \<and> removedLast later ids)"

text \<open>
  What cloning and the removal passes keep of the live document, whatever the identities
  are: the root and the body keep their identity and attributes, and every node below
  the body was below it before.
\<close>

definition keptFrom :: "dom \<Rightarrow> dom \<Rightarrow> bool" where
  "keptFrom s s' =
     (htmlId s' = htmlId s \<and> htmlAttrs s' = htmlAttrs s
      \<and> bodyId s' = bodyId s \<and> bodyAttrs s' = bodyAttrs s
      \<and> (\<forall>d \<in> set (descendants (bodyElement s')).
            \<exists>e \<in> set (descendants (bodyElement s)). shell e = shell d))"

subsection \<open>Example pages\<close>

text \<open>
  \<open>pageA\<close> has no semantic marker; its content is the first \<^verbatim>\<open>div\<close>, which holds
  a heading, a \<^verbatim>\<open>nav\<close>, a share box and a paragraph. \<open>pageA_cleaned\<close> is the clone after
  both removal passes with the state then, \<open>pageA_reader\<close> the document after the run.
\<close>

definition pageA :: dom where
  "pageA = \<lparr>htmlId = 0, htmlAttrs = [], headId = 1, headAttrs = [],
     headChildren = [Element 3 HTMLElement ''TITLE'' [] [Text 4 ''Page'']],
     bodyId = 2, bodyAttrs = [],
     bodyChildren =
       [Element 5 HTMLElement ''DIV'' [(''class'', ''Content'')]
          [Element 6 HTMLElement ''H1'' [] [Text 7 ''Hello''],
           Element 8 HTMLElement ''NAV'' [] [Element 9 HTMLElement ''P'' [] []],
           Element 10 HTMLElement ''DIV'' [(''class'', ''Share-Box'')]
             [Element 11 HTMLElement ''P'' [(''id'', ''ad-1'')] []],
           Element 12 HTMLElement ''P'' [] [Text 13 ''para'']]],
     detached = [], nextId = 14, reloads = 0, scrollPos = None\<rparr>"

definition pageA_cleaned :: "node \<times> dom" where
  "pageA_cleaned =
     (Element 14 HTMLElement ''DIV'' [(''class'', ''Content'')]
        [Element 15 HTMLElement ''H1'' [] [Text 16 ''Hello''],
         Element 21 HTMLElement ''P'' [] [Text 22 ''para'']],
      pageA\<lparr>detached :=
       [Element 17 HTMLElement ''NAV'' [] [Element 18 HTMLElement ''P'' [] []],
        Element 19 HTMLElement ''DIV'' [(''class'', ''Share-Box'')] [],
        Element 20 HTMLElement ''P'' [(''id'', ''ad-1'')] []],
         nextId := 23\<rparr>)"

definition pageA_reader :: dom where
  "pageA_reader = \<lparr>htmlId = 0, htmlAttrs = [], headId = 1, headAttrs = [],
     headChildren =
       [Element 23 HTMLElement ''META'' [(''charset'', ''UTF-8'')] [],
        Element 24 HTMLElement ''META''
          [(''name'', ''viewport''), (''content'', ''width=device-width, initial-scale=1.0'')] [],
        Element 26 HTMLElement ''TITLE'' [] [Text 25 ''Reader: Hello''],
        Element 27 HTMLElement ''STYLE'' [] [Text 28 styleText]],
     bodyId = 2, bodyAttrs = [(''data-reader-mode'', ''true'')],
     bodyChildren =
       [Element 29 HTMLElement ''H1'' [] [Text 30 ''Hello''],
        Element 15 HTMLElement ''H1'' [] [Text 16 ''Hello''],
        Element 21 HTMLElement ''P'' [] [Text 22 ''para'']],
     detached =
       [Element 17 HTMLElement ''NAV'' [] [Element 18 HTMLElement ''P'' [] []],
        Element 19 HTMLElement ''DIV'' [(''class'', ''Share-Box'')] [],
        Element 20 HTMLElement ''P'' [(''id'', ''ad-1'')] [],
        Element 3 HTMLElement ''TITLE'' [] [Text 4 ''Page''],
        Element 5 HTMLElement ''DIV'' [(''class'', ''Content'')]
          [Element 6 HTMLElement ''H1'' [] [Text 7 ''Hello''],
           Element 8 HTMLElement ''NAV'' [] [Element 9 HTMLElement ''P'' [] []],
           Element 10 HTMLElement ''DIV'' [(''class'', ''Share-Box'')]
             [Element 11 HTMLElement ''P'' [(''id'', ''ad-1'')] []],
           Element 12 HTMLElement ''P'' [] [Text 13 ''para'']]],
     nextId = 31, reloads = 0, scrollPos = Some (0, 0)\<rparr>"

text \<open>\<open>pageB\<close> has two candidates of equal score; \<open>pageC\<close> has an \<^verbatim>\<open>article\<close> after a
  \<^verbatim>\<open>div\<close> of higher score; \<open>pageD\<close> has a \<^verbatim>\<open>main\<close> element before an element with
  role main; \<open>pageE\<close> has neither marker nor candidate, neither heading nor title, and
  \<open>pageE_reader\<close> is the document after the run; \<open>mainNav\<close> carries a word of the
  penalty list and one of the bonus list.\<close>

definition pageB :: dom where
  "pageB = \<lparr>htmlId = 0, htmlAttrs = [], headId = 1, headAttrs = [], headChildren = [],
     bodyId = 2, bodyAttrs = [],
     bodyChildren =
       [Element 3 HTMLElement ''DIV'' [] [Text 4 ''abc''],
        Element 5 HTMLElement ''SECTION'' [] [Text 6 ''xyz'']],
     detached = [], nextId = 7, reloads = 0, scrollPos = None\<rparr>"

definition pageC :: dom where
  "pageC = \<lparr>htmlId = 0, htmlAttrs = [], headId = 1, headAttrs = [], headChildren = [],
     bodyId = 2, bodyAttrs = [],
     bodyChildren =
       [Element 3 HTMLElement ''DIV'' [(''class'', ''content'')] [Element 4 HTMLElement ''P'' [] [Text 5 ''long'']],
        Element 6 HTMLElement ''ARTICLE'' [] []],
     detached = [], nextId = 7, reloads = 0, scrollPos = None\<rparr>"


definition pageD :: dom where
  "pageD = \<lparr>htmlId = 0, htmlAttrs = [], headId = 1, headAttrs = [], headChildren = [],
     bodyId = 2, bodyAttrs = [],
     bodyChildren =
       [Element 3 HTMLElement ''MAIN'' [] [Text 4 ''first''],
        Element 5 HTMLElement ''DIV'' [(''role'', ''main'')] [Text 6 ''second'']],
     detached = [], nextId = 7, reloads = 0, scrollPos = None\<rparr>"

definition pageE :: dom where
  "pageE = \<lparr>htmlId = 0, htmlAttrs = [], headId = 1, headAttrs = [], headChildren = [],
     bodyId = 2, bodyAttrs = [],
     bodyChildren = [Element 3 HTMLElement ''P'' [] [Text 4 ''only'']],
     detached = [], nextId = 5, reloads = 0, scrollPos = None\<rparr>"

definition pageE_reader :: dom where
  "pageE_reader = \<lparr>htmlId = 0, htmlAttrs = [], headId = 1, headAttrs = [],
     headChildren =
       [Element 8 HTMLElement ''META'' [(''charset'', ''UTF-8'')] [],
        Element 9 HTMLElement ''META''
          [(''name'', ''viewport''), (''content'', ''width=device-width, initial-scale=1.0'')] [],
        Element 11 HTMLElement ''TITLE'' [] [Text 10 ''Reader: ''],
        Element 12 HTMLElement ''STYLE'' [] [Text 13 styleText]],
     bodyId = 2, bodyAttrs = [(''data-reader-mode'', ''true'')],
     bodyChildren =
       [Element 14 HTMLElement ''H1'' [] [],
        Element 6 HTMLElement ''P'' [] [Text 7 ''only'']],
     detached =
       [Element 3 HTMLElement ''P'' [] [Text 4 ''only'']],
     nextId = 15, reloads = 0, scrollPos = Some (0, 0)\<rparr>"

text \<open>
  \<open>pageTie\<close> has two candidates whose exact sums are both \<open>1 / 100\<close>: a \<^verbatim>\<open>div\<close> with
  one character of text, and a \<^verbatim>\<open>div\<close> of class nav with one character and ten
  paragraphs. \<open>pageSvg\<close> has an article with an SVG element of class ad-banner.
  \<open>pageTitleInBody\<close> has its \<^verbatim>\<open>title\<close> element in the body, outside the article.
  \<open>pageRoot\<close> carries the marker on the root element and not on the body.
\<close>

definition pageTie :: dom where
  "pageTie = \<lparr>htmlId = 0, htmlAttrs = [], headId = 1, headAttrs = [], headChildren = [],
     bodyId = 2, bodyAttrs = [],
     bodyChildren =
       [Element 3 HTMLElement ''DIV'' [] [Text 4 ''a''],
        Element 5 HTMLElement ''DIV'' [(''class'', ''nav'')]
          [Element 6 HTMLElement ''P'' [] [Text 7 ''a''],
           Element 8 HTMLElement ''P'' [] [], Element 9 HTMLElement ''P'' [] [],
           Element 10 HTMLElement ''P'' [] [], Element 11 HTMLElement ''P'' [] [],
           Element 12 HTMLElement ''P'' [] [], Element 13 HTMLElement ''P'' [] [],
           Element 14 HTMLElement ''P'' [] [], Element 15 HTMLElement ''P'' [] [],
           Element 16 HTMLElement ''P'' [] []]],
     detached = [], nextId = 17, reloads = 0, scrollPos = None\<rparr>"



definition pageTitleInBody :: dom where
  "pageTitleInBody = \<lparr>htmlId = 0, htmlAttrs = [], headId = 1, headAttrs = [], headChildren = [],
     bodyId = 2, bodyAttrs = [],
     bodyChildren =
       [Element 3 HTMLElement ''TITLE'' [] [Text 4 ''Old''],
        Element 5 HTMLElement ''ARTICLE'' [] [Element 6 HTMLElement ''P'' [] [Text 7 ''text'']]],
     detached = [], nextId = 8, reloads = 0, scrollPos = None\<rparr>"

definition pageTitleInBody_reader :: dom where
  "pageTitleInBody_reader = \<lparr>htmlId = 0, htmlAttrs = [], headId = 1, headAttrs = [],
     headChildren =
       [Element 11 HTMLElement ''META'' [(''charset'', ''UTF-8'')] [],
        Element 12 HTMLElement ''META''
          [(''name'', ''viewport''), (''content'', ''width=device-width, initial-scale=1.0'')] [],
        Element 14 HTMLElement ''STYLE'' [] [Text 15 styleText]],
     bodyId = 2, bodyAttrs = [(''data-reader-mode'', ''true'')],
     bodyChildren =
       [Element 16 HTMLElement ''H1'' [] [Text 17 ''Old''],
        Element 9 HTMLElement ''P'' [] [Text 10 ''text'']],
     detached =
       [Text 4 ''Old'',
        Element 3 HTMLElement ''TITLE'' [] [Text 13 ''Reader: Old''],
        Element 5 HTMLElement ''ARTICLE'' [] [Element 6 HTMLElement ''P'' [] [Text 7 ''text'']]],
     nextId = 18, reloads = 0, scrollPos = Some (0, 0)\<rparr>"

definition pageRoot :: dom where
  "pageRoot = \<lparr>htmlId = 0, htmlAttrs = [(''data-reader-mode'', ''true'')], headId = 1,
     headAttrs = [], headChildren = [],
     bodyId = 2, bodyAttrs = [],
     bodyChildren = [Element 3 HTMLElement ''P'' [] [Text 4 ''text'']],
     detached = [], nextId = 5, reloads = 0, scrollPos = None\<rparr>"

section \<open>The score\<close>

lemma matches_Tags: "matches (Tags ts) d = (isElement d \<and> toLowerCase (tagName d) \<in> set ts)"
  by (cases d) auto

lemma querySelectorAll_p: "querySelectorAll n (Tags [''p'']) = paragraphDescendants n"
  unfolding querySelectorAll_def paragraphDescendants_def
  by (rule filter_cong) (simp_all add: matches_Tags)

lemma orElse_empty: "orElse a [] = a"
  by (simp add: orElse_def)

lemma scoreNode_steps:
  "scoreNode vis n =
     scoreFormulaDouble (length (vis n)) (length (paragraphDescendants n))
       (toLowerCase (tagName n)) (classId n)"
  by (simp add: scoreNode_def scoreFormulaDouble_def classId_def Let_def querySelectorAll_p
      orElse_empty negativeWords_def positiveWords_def addDouble_def subDouble_def
      mulDouble_def divDouble_def)




lemma candidates_tag:
  "c \<in> set (candidates s) \<Longrightarrow> toLowerCase (tagName c) \<in> {''div'', ''section'', ''td''}"
  by (auto simp: candidates_def document_querySelectorAll_def matches_Tags)

lemma scanCandidates_scanWith:
  "\<forall>c \<in> set cs. scoreNode vis c = score c \<Longrightarrow>
     scanCandidates vis cs best content = scanWith score cs best content"
  by (induction cs arbitrary: best content) (simp_all add: Let_def)

lemma candidates_no_tag_penalty:
  assumes "c \<in> set (candidates s)"
  shows "scoreNode vis c = scoreWithoutOwnTagPenalty vis c"
proof -
  from assms have "toLowerCase (tagName c) \<in> {''div'', ''section'', ''td''}"
    by (rule candidates_tag)
  then have "\<not> (toLowerCase (tagName c) = ''nav'' \<or> toLowerCase (tagName c) = ''aside''
               \<or> toLowerCase (tagName c) = ''footer'' \<or> toLowerCase (tagName c) = ''header'')"
    by auto
  then show ?thesis
    by (simp add: scoreNode_def scoreWithoutOwnTagPenalty_def Let_def)
qed

text \<open>
  Claim C10. The fallback scan scores the nodes of \<open>candidates\<close> only. Each of them is
  an element whose tag is div, section or td, so the own-tag penalty cannot apply: its
  score is what the scoring function without that term gives, and the scan selects what
  it would select with that function.
\<close>
theorem candidate_score_without_tag_penalty:
  "(\<forall>c \<in> set (candidates s).
      isElement c \<and> toLowerCase (tagName c) \<in> {''div'', ''section'', ''td''} \<and>
      scoreNode vis c = scoreWithoutOwnTagPenalty vis c)
   \<and> scanCandidates vis (candidates s) None None =
       scanWith (scoreWithoutOwnTagPenalty vis) (candidates s) None None"
proof -
  have each: "\<forall>c \<in> set (candidates s).
      isElement c \<and> toLowerCase (tagName c) \<in> {''div'', ''section'', ''td''} \<and>
      scoreNode vis c = scoreWithoutOwnTagPenalty vis c"
  proof
    fix c assume c: "c \<in> set (candidates s)"
    then have "isElement c"
      by (auto simp: candidates_def document_querySelectorAll_def matches_Tags)
    with c show "isElement c \<and> toLowerCase (tagName c) \<in> {''div'', ''section'', ''td''} \<and>
      scoreNode vis c = scoreWithoutOwnTagPenalty vis c"
      using candidates_tag [of c s] candidates_no_tag_penalty [of c s vis] by simp
  qed
  then have "\<forall>c \<in> set (candidates s). scoreNode vis c = scoreWithoutOwnTagPenalty vis c"
    by simp
  then have "scanCandidates vis (candidates s) None None =
       scanWith (scoreWithoutOwnTagPenalty vis) (candidates s) None None"
    by (rule scanCandidates_scanWith)
  with each show ?thesis by simp
qed

section \<open>The locator\<close>

lemma find_filter: "find P xs = (case filter P xs of [] \<Rightarrow> None | x # _ \<Rightarrow> Some x)"
  by (induction xs) auto

lemma document_querySelector_first:
  "document_querySelector s sel =
     (case document_querySelectorAll s sel of [] \<Rightarrow> None | x # _ \<Rightarrow> Some x)"
  by (simp add: document_querySelector_def document_querySelectorAll_def find_filter)

text \<open>
  Claim C5. The locator returns the first \<^verbatim>\<open>article\<close> element in tree order when there
  is one; otherwise the first element with role main when there is one; otherwise the
  first \<^verbatim>\<open>main\<close> element when there is one. The scores play no part in these three
  cases: the scan of the candidates decides only when no marker exists.
\<close>
theorem semantic_marker_priority:
  "(document_querySelectorAll s (Tags [''article'']) \<noteq> [] \<longrightarrow>
      locateContent vis s = hd (document_querySelectorAll s (Tags [''article''])))
   \<and> (document_querySelectorAll s (Tags [''article'']) = [] \<and>
      document_querySelectorAll s (Attr ''role'' ''main'') \<noteq> [] \<longrightarrow>
      locateContent vis s = hd (document_querySelectorAll s (Attr ''role'' ''main'')))
   \<and> (document_querySelectorAll s (Tags [''article'']) = [] \<and>
      document_querySelectorAll s (Attr ''role'' ''main'') = [] \<and>
      document_querySelectorAll s (Tags [''main'']) \<noteq> [] \<longrightarrow>
      locateContent vis s = hd (document_querySelectorAll s (Tags [''main''])))
   \<and> (document_querySelectorAll s (Tags [''article'']) = [] \<and>
      document_querySelectorAll s (Attr ''role'' ''main'') = [] \<and>
      document_querySelectorAll s (Tags [''main'']) = [] \<longrightarrow>
      locateContent vis s =
        (case scanCandidates vis (candidates s) None None of
           None \<Rightarrow> bodyElement s | Some c \<Rightarrow> c))"
  by (auto simp: locateContent_def semanticContent_def orNode_def Let_def
      document_querySelector_first split: list.splits)

lemma scanCandidates_keep:
  "\<forall>c \<in> set cs. \<not> exceeds (scoreNode vis c) best \<Longrightarrow>
     scanCandidates vis cs best content = content"
  by (induction cs) (auto simp: Let_def)

lemma scanCandidates_best:
  "\<exists>c \<in> set cs. exceeds (scoreNode vis c) best \<Longrightarrow>
     \<exists>pre c post. cs = pre @ c # post \<and> scanCandidates vis cs best content = Some c \<and>
       exceeds (scoreNode vis c) best \<and>
       (\<forall>x \<in> set pre. scoreNode vis x < scoreNode vis c) \<and>
       (\<forall>x \<in> set post. scoreNode vis x \<le> scoreNode vis c)"
proof (induction cs arbitrary: best content)
  case Nil
  then show ?case by simp
next
  case (Cons a cs)
  show ?case
  proof (cases "exceeds (scoreNode vis a) best")
    case hit: True
    show ?thesis
    proof (cases "\<exists>c \<in> set cs. exceeds (scoreNode vis c) (Some (scoreNode vis a))")
      case True
      from Cons.IH [OF True, of "Some a"] obtain pre c post where
        split: "cs = pre @ c # post" and
        res: "scanCandidates vis cs (Some (scoreNode vis a)) (Some a) = Some c" and
        ex: "exceeds (scoreNode vis c) (Some (scoreNode vis a))" and
        pre: "\<forall>x \<in> set pre. scoreNode vis x < scoreNode vis c" and
        post: "\<forall>x \<in> set post. scoreNode vis x \<le> scoreNode vis c"
        by blast
      from ex have gt: "scoreNode vis a < scoreNode vis c" by simp
      have "a # cs = (a # pre) @ c # post" using split by simp
      moreover have "scanCandidates vis (a # cs) best content = Some c"
        using hit res by (simp add: Let_def)
      moreover have "exceeds (scoreNode vis c) best"
        using hit gt by (cases best) auto
      moreover have "\<forall>x \<in> set (a # pre). scoreNode vis x < scoreNode vis c"
        using pre gt by simp
      ultimately show ?thesis using post by blast
    next
      case False
      then have keep: "scanCandidates vis cs (Some (scoreNode vis a)) (Some a) = Some a"
        by (intro scanCandidates_keep) blast
      from False have le: "\<forall>x \<in> set cs. scoreNode vis x \<le> scoreNode vis a"
        by (auto simp: not_less)
      have "a # cs = [] @ a # cs" by simp
      moreover have "scanCandidates vis (a # cs) best content = Some a"
        using hit keep by (simp add: Let_def)
      ultimately show ?thesis using hit le by fastforce
    qed
  next
    case miss: False
    with Cons.prems have "\<exists>c \<in> set cs. exceeds (scoreNode vis c) best" by auto
    from Cons.IH [OF this, of content] obtain pre c post where
      split: "cs = pre @ c # post" and
      res: "scanCandidates vis cs best content = Some c" and
      ex: "exceeds (scoreNode vis c) best" and
      pre: "\<forall>x \<in> set pre. scoreNode vis x < scoreNode vis c" and
      post: "\<forall>x \<in> set post. scoreNode vis x \<le> scoreNode vis c"
      by blast
    from miss ex have gt: "scoreNode vis a < scoreNode vis c"
      by (cases best) auto
    have "a # cs = (a # pre) @ c # post" using split by simp
    moreover have "scanCandidates vis (a # cs) best content = Some c"
      using miss res by (simp add: Let_def)
    moreover have "\<forall>x \<in> set (a # pre). scoreNode vis x < scoreNode vis c"
      using pre gt by simp
    ultimately show ?thesis using ex post by blast
  qed
qed

text \<open>
  Claim C4. In a document without semantic marker, the locator returns the body when
  there is no div, section or td element; otherwise it returns a candidate whose score
  no candidate exceeds and which every earlier candidate stays strictly below, that is
  the first candidate of highest score in tree order. The score is the double that
  \<^verbatim>\<open>scoreNode\<close> computes; two candidates whose exact sums agree can differ in it. The
  locator is a total function: it returns a node for every document.
\<close>
theorem heuristic_selection:
  assumes "document_querySelector s (Tags [''article'']) = None"
    and "document_querySelector s (Attr ''role'' ''main'') = None"
    and "document_querySelector s (Tags [''main'']) = None"
  shows "(candidates s = [] \<longrightarrow> locateContent vis s = bodyElement s)
       \<and> (candidates s \<noteq> [] \<longrightarrow>
            (\<exists>pre c post. candidates s = pre @ c # post \<and> locateContent vis s = c \<and>
               (\<forall>x \<in> set pre. scoreNode vis x < scoreNode vis c) \<and>
               (\<forall>x \<in> set post. scoreNode vis x \<le> scoreNode vis c)))"
proof -
  from assms have sem: "semanticContent s = None"
    by (simp add: semanticContent_def orNode_def)
  have empty: "candidates s = [] \<longrightarrow> locateContent vis s = bodyElement s"
    using sem by (simp add: locateContent_def Let_def)
  have nonempty: "\<exists>pre c post. candidates s = pre @ c # post \<and> locateContent vis s = c \<and>
               (\<forall>x \<in> set pre. scoreNode vis x < scoreNode vis c) \<and>
               (\<forall>x \<in> set post. scoreNode vis x \<le> scoreNode vis c)"
    if ne: "candidates s \<noteq> []"
  proof -
    from ne obtain a where "a \<in> set (candidates s)" by (cases "candidates s") auto
    then have "\<exists>c \<in> set (candidates s). exceeds (scoreNode vis c) None" by auto
    from scanCandidates_best [OF this, of None] obtain pre c post where
      "candidates s = pre @ c # post"
      "scanCandidates vis (candidates s) None None = Some c"
      "\<forall>x \<in> set pre. scoreNode vis x < scoreNode vis c"
      "\<forall>x \<in> set post. scoreNode vis x \<le> scoreNode vis c"
      by blast
    moreover from this have "locateContent vis s = c"
      using sem by (simp add: locateContent_def Let_def)
    ultimately show ?thesis by blast
  qed
  from empty nonempty show ?thesis by blast
qed

section \<open>The guard and the rebuilding steps\<close>

text \<open>
  Claim C2. When the marker already reads true, the script requests a reload and
  returns: the resulting state is the initial one with one more reload request, so
  nothing was located, scored, cloned or rebuilt.
\<close>
theorem reader_state_reloads:
  "inReaderMode s \<Longrightarrow> run vis s = Inr (s\<lparr>reloads := Suc (reloads s)\<rparr>)"
  by (simp add: run_def)

declare clearHead.simps [simp del] clearBody.simps [simp del] transferChildren.simps [simp del]

lemma clearHead_eq:
  "clearHead s = s\<lparr>headChildren := [], detached := detached s @ headChildren s\<rparr>"
proof (induction s rule: clearHead.induct)
  case (1 s)
  show ?case
  proof (cases "headChildren s")
    case Nil
    then show ?thesis by (subst clearHead.simps) simp
  next
    case (Cons c cs)
    then show ?thesis using "1" by (subst clearHead.simps) simp
  qed
qed

lemma clearBody_eq:
  "clearBody s = s\<lparr>bodyChildren := [], detached := detached s @ bodyChildren s\<rparr>"
proof (induction s rule: clearBody.induct)
  case (1 s)
  show ?case
  proof (cases "bodyChildren s")
    case Nil
    then show ?thesis by (subst clearBody.simps) simp
  next
    case (Cons c cs)
    then show ?thesis using "1" by (subst clearBody.simps) simp
  qed
qed

lemma setChildNodes_same: "childNodes n = ch \<Longrightarrow> setChildNodes n ch = n"
  by (cases n) auto

lemma childNodes_setChildNodes: "childNodes n = c # cs \<Longrightarrow> childNodes (setChildNodes n ch) = ch"
  by (cases n) auto

lemma setChildNodes_twice: "setChildNodes (setChildNodes n a) b = setChildNodes n b"
  by (cases n) auto

lemma transferChildren_eq:
  "transferChildren (cl, s) =
     (setChildNodes cl [], s\<lparr>bodyChildren := bodyChildren s @ childNodes cl\<rparr>)"
proof (induction "childNodes cl" arbitrary: cl s)
  case Nil
  then show ?case
    by (subst transferChildren.simps) (simp add: setChildNodes_same)
next
  case (Cons c cs)
  from Cons.hyps(2) have ch: "childNodes cl = c # cs" by simp
  then have "cs = childNodes (setChildNodes cl cs)"
    by (simp add: childNodes_setChildNodes)
  from Cons.hyps(1) [OF this, of "body_appendChild c s"]
  have "transferChildren (setChildNodes cl cs, body_appendChild c s) =
          (setChildNodes cl [], s\<lparr>bodyChildren := bodyChildren s @ c # cs\<rparr>)"
    using ch by (simp add: setChildNodes_twice childNodes_setChildNodes body_appendChild_def)
  then show ?case
    using ch by (subst transferChildren.simps) simp
qed

lemma styleText_nonempty: "styleText \<noteq> []"
  by (simp add: styleText_def)


lemma toUpperCase_meta: "toUpperCase ''meta'' = ''META''"
  by code_simp

lemma toUpperCase_style: "toUpperCase ''style'' = ''STYLE''"
  by code_simp

lemma toLowerCase_tags:
  "toLowerCase ''HTML'' = ''html''"
  "toLowerCase ''HEAD'' = ''head''"
  "toLowerCase ''BODY'' = ''body''"
  "toLowerCase ''META'' = ''meta''"
  "toLowerCase ''TITLE'' = ''title''"
  "toLowerCase ''STYLE'' = ''style''"
  "toLowerCase ''H1'' = ''h1''"
  by code_simp+

lemma writeFirst_none:
  "\<forall>d \<in> set (inclusiveDescendants n). \<not> P d \<Longrightarrow> writeFirst P new n = (n, None)"
  "\<forall>c \<in> set ns. \<forall>d \<in> set (inclusiveDescendants c). \<not> P d \<Longrightarrow>
     writeFirstList P new ns = (ns, None)"
proof (induction P new n and P new ns rule: writeFirst_writeFirstList.induct)
  case (1 P new i d)
  show ?case by simp
next
  case (2 P new i ifc t a ch)
  from "2.prems" have self: "\<not> P (Element i ifc t a ch)"
    by (simp add: inclusiveDescendants_def)
  from "2.prems" have "\<forall>c \<in> set ch. \<forall>d \<in> set (inclusiveDescendants c). \<not> P d"
    by (simp add: inclusiveDescendants_def)
  with "2.IH" self have "writeFirstList P new ch = (ch, None)" by simp
  with self show ?case by simp
next
  case (3 P new)
  show ?case by simp
next
  case (4 P new c cs)
  from "4.prems" have c: "writeFirst P new c = (c, None)"
    using "4.IH"(1) by simp
  from "4.prems" have "\<forall>x \<in> set cs. \<forall>d \<in> set (inclusiveDescendants x). \<not> P d" by simp
  with "4.IH"(2) [OF c [symmetric] refl] have "writeFirstList P new cs = (cs, None)"
    by simp
  with c show ?case by simp
qed

text \<open>
  Assigning \<^verbatim>\<open>document.title\<close> changes the child lists of the head and the body, the
  detached trees and the identity supply only.
\<close>

lemma set_document_title_frame:
  "htmlId (set_document_title str s) = htmlId s"
  "htmlAttrs (set_document_title str s) = htmlAttrs s"
  "headId (set_document_title str s) = headId s"
  "headAttrs (set_document_title str s) = headAttrs s"
  "bodyId (set_document_title str s) = bodyId s"
  "bodyAttrs (set_document_title str s) = bodyAttrs s"
  "reloads (set_document_title str s) = reloads s"
  "scrollPos (set_document_title str s) = scrollPos s"
  by (simp_all add: set_document_title_def Let_def split: prod.splits option.splits)

text \<open>Without a title element in the document, the assignment appends a new one to the head.\<close>

lemma set_document_title_new:
  assumes "\<forall>c \<in> set (headChildren s). \<forall>d \<in> set (inclusiveDescendants c). \<not> isTitleElement d"
    and "\<forall>c \<in> set (bodyChildren s). \<forall>d \<in> set (inclusiveDescendants c). \<not> isTitleElement d"
    and "str \<noteq> []"
  shows "set_document_title str s =
           s\<lparr>headChildren :=
               headChildren s @
               [Element (Suc (nextId s)) HTMLElement ''TITLE'' [] [Text (nextId s) str]],
             nextId := Suc (Suc (nextId s))\<rparr>"
proof -
  have h: "writeFirstList isTitleElement [Text (nextId s) str] (headChildren s)
             = (headChildren s, None)"
    using assms(1) by (rule writeFirst_none(2))
  have b: "writeFirstList isTitleElement [Text (nextId s) str] (bodyChildren s)
             = (bodyChildren s, None)"
    using assms(2) by (rule writeFirst_none(2))
  show ?thesis
    using assms(3) by (simp add: set_document_title_def Let_def h b)
qed

lemma rebuildHead_frame:
  "htmlId (rebuildHead ttl s) = htmlId s"
  "htmlAttrs (rebuildHead ttl s) = htmlAttrs s"
  "bodyAttrs (rebuildHead ttl s) = bodyAttrs s"
  "bodyId (rebuildHead ttl s) = bodyId s"
  "reloads (rebuildHead ttl s) = reloads s"
  by (simp_all add: rebuildHead_def clearHead_eq createElement_def setTextContent_def
      head_appendChild_def Let_def styleText_nonempty set_document_title_frame)

lemma rebuildHead_children:
  assumes "\<forall>c \<in> set (bodyChildren s). \<forall>d \<in> set (inclusiveDescendants c). \<not> isTitleElement d"
  shows "headChildren (rebuildHead ttl s) =
           [Element (nextId s) HTMLElement ''META'' [(''charset'', ''UTF-8'')] [],
            Element (nextId s + 1) HTMLElement ''META''
              [(''name'', ''viewport''),
               (''content'', ''width=device-width, initial-scale=1.0'')] [],
            Element (nextId s + 3) HTMLElement ''TITLE'' []
              [Text (nextId s + 2) (''Reader: '' @ ttl)],
            Element (nextId s + 4) HTMLElement ''STYLE'' [] [Text (nextId s + 5) styleText]]"
proof -
  define m1 where "m1 = Element (nextId s) HTMLElement ''META'' [(''charset'', ''UTF-8'')] []"
  define m2 where "m2 = Element (nextId s + 1) HTMLElement ''META''
              [(''name'', ''viewport''),
               (''content'', ''width=device-width, initial-scale=1.0'')] []"
  define s2 where "s2 = s\<lparr>headChildren := [m1, m2], detached := detached s @ headChildren s,
                           nextId := nextId s + 2\<rparr>"
  have head: "\<forall>c \<in> set (headChildren s2). \<forall>d \<in> set (inclusiveDescendants c). \<not> isTitleElement d"
    by (simp add: s2_def m1_def m2_def inclusiveDescendants_def toLowerCase_tags)
  have body: "\<forall>c \<in> set (bodyChildren s2). \<forall>d \<in> set (inclusiveDescendants c). \<not> isTitleElement d"
    using assms by (simp add: s2_def)
  have ne: "''Reader: '' @ ttl \<noteq> []" by simp
  note new = set_document_title_new [OF head body ne]
  define prep where "prep =
     (let s = clearHead s;
          (meta1, s) = createElement ''meta'' s;
          meta1 = setAttribute meta1 ''charset'' ''UTF-8'';
          s = head_appendChild meta1 s;
          (meta2, s) = createElement ''meta'' s;
          meta2 = setAttribute meta2 ''name'' ''viewport'';
          meta2 = setAttribute meta2 ''content'' ''width=device-width, initial-scale=1.0'';
          s = head_appendChild meta2 s
      in s)"
  define fin where "fin = (\<lambda>s0.
     (let (style, s) = createElement ''style'' s0;
          (style, s) = setTextContent style styleText s;
          s = head_appendChild style s
      in s))"
  have steps: "rebuildHead ttl s = fin (set_document_title (''Reader: '' @ ttl) prep)"
    by (simp add: rebuildHead_def prep_def fin_def Let_def split_beta)
  have prep: "prep = s2"
    by (simp add: prep_def clearHead_eq createElement_def head_appendChild_def Let_def
        s2_def m1_def m2_def toUpperCase_meta)
  show ?thesis
    unfolding steps prep new
    by (simp add: fin_def createElement_def setTextContent_def head_appendChild_def Let_def
        styleText_nonempty toUpperCase_style s2_def m1_def m2_def)
qed


lemma rebuildBody_frame:
  "htmlId (rebuildBody ttl (cl, s)) = htmlId s"
  "htmlAttrs (rebuildBody ttl (cl, s)) = htmlAttrs s"
  "headId (rebuildBody ttl (cl, s)) = headId s"
  "headAttrs (rebuildBody ttl (cl, s)) = headAttrs s"
  "headChildren (rebuildBody ttl (cl, s)) = headChildren s"
  "bodyId (rebuildBody ttl (cl, s)) = bodyId s"
  "bodyAttrs (rebuildBody ttl (cl, s)) = updateAttr ''data-reader-mode'' ''true'' (bodyAttrs s)"
  "reloads (rebuildBody ttl (cl, s)) = reloads s"
  by (simp_all add: rebuildBody_def clearBody_eq createElement_def setTextContent_def
      body_appendChild_def transferChildren_eq Let_def)

lemma map_of_updateAttr: "map_of (updateAttr k v a) k = Some v"
  by (induction a) auto

lemma run_Inr:
  assumes "\<not> inReaderMode s" and "run vis s = Inr s'"
  obtains cleaned st where
    "cleanClone (locateContent vis s) s = Inr (cleaned, st)"
    "s' = rebuildBody (extractTitle vis s) (cleaned, rebuildHead (extractTitle vis s) st)"
proof -
  from assms obtain r where r: "cleanClone (locateContent vis s) s = Inr r"
    and s': "s' = rebuildBody (extractTitle vis s) (fst r, rebuildHead (extractTitle vis s) (snd r))"
    by (auto simp: run_def Let_def split: sum.splits)
  show ?thesis
    by (rule that [of "fst r" "snd r"]) (simp_all add: r s')
qed

section \<open>The removal passes\<close>

lemma shell_simps [simp]:
  "nodeId (shell d) = nodeId d"
  "isElement (shell d) = isElement d"
  "tagName (shell d) = tagName d"
  "attributes (shell d) = attributes d"
  by (cases d; simp)+

lemma matches_shell: "matches sel (shell d) = matches sel d"
  by (cases d; cases sel) auto

lemma shell_eq_nodeId: "shell d = shell e \<Longrightarrow> nodeId d = nodeId e"
  by (metis shell_simps(1))

lemma shell_eq_matches: "shell d = shell e \<Longrightarrow> matches sel d = matches sel e"
  by (metis matches_shell)



lemma isTitleElement_shell: "isTitleElement (shell d) = isTitleElement d"
  by (cases d rule: isTitleElement.cases) simp_all

lemma shell_eq_isTitleElement: "shell d = shell e \<Longrightarrow> isTitleElement d = isTitleElement e"
  by (metis isTitleElement_shell)

lemma shell_removeNode: "shell (removeNode c n) = shell n"
  by (cases n) auto

lemma nodeId_removeNode: "nodeId (removeNode c n) = nodeId n"
  by (cases n) auto

lemma descendants_removeNode_shell:
  "d \<in> set (descendants (removeNode c t)) \<Longrightarrow> \<exists>e \<in> set (descendants t). shell e = shell d"
proof (induction t arbitrary: d)
  case (Element i ifc tg a ch)
  from Element.prems obtain x where x: "x \<in> set ch" "nodeId x \<noteq> c"
    and d: "d = removeNode c x \<or> d \<in> set (descendants (removeNode c x))"
    by auto
  from d show ?case
  proof
    assume "d = removeNode c x"
    then have "shell x = shell d" by (simp add: shell_removeNode)
    with x show ?thesis by auto
  next
    assume "d \<in> set (descendants (removeNode c x))"
    from Element.IH [OF x(1) this] obtain e where "e \<in> set (descendants x)" "shell e = shell d"
      by blast
    with x show ?thesis by auto
  qed
next
  case (Text i dt)
  then show ?case by simp
qed

lemma descendants_removeNode_id:
  "d \<in> set (descendants (removeNode c t)) \<Longrightarrow> nodeId d \<noteq> c"
proof (induction t arbitrary: d)
  case (Element i ifc tg a ch)
  from Element.prems obtain x where x: "x \<in> set ch" "nodeId x \<noteq> c"
    and d: "d = removeNode c x \<or> d \<in> set (descendants (removeNode c x))"
    by auto
  from d show ?case
  proof
    assume "d = removeNode c x"
    with x show ?thesis by (simp add: nodeId_removeNode)
  next
    assume "d \<in> set (descendants (removeNode c x))"
    from Element.IH [OF x(1) this] show ?thesis .
  qed
next
  case (Text i dt)
  then show ?case by simp
qed

lemma removeChild_clone:
  "removeChild p c st = Inr st' \<Longrightarrow> fst st' = removeNode c (fst st)"
  by (auto simp: removeChild_def split: prod.splits if_splits)

lemma removeEach_clone:
  "removeEach es st = Inr st' \<Longrightarrow>
     (\<forall>d \<in> set (descendants (fst st')). (\<exists>e \<in> set (descendants (fst st)). shell e = shell d)
         \<and> nodeId d \<notin> set es)"
proof (induction es arbitrary: st)
  case Nil
  then show ?case by auto
next
  case (Cons e es)
  from Cons.prems obtain p st1 where
    rc: "removeChild p e st = Inr st1" and rest: "removeEach es st1 = Inr st'"
    by (auto split: option.splits sum.splits)
  from rc have st1: "fst st1 = removeNode e (fst st)" by (rule removeChild_clone)
  show ?case
  proof
    fix d assume d: "d \<in> set (descendants (fst st'))"
    from Cons.IH [OF rest] d obtain d1 where
      d1: "d1 \<in> set (descendants (fst st1))" "shell d1 = shell d" and notin: "nodeId d \<notin> set es"
      by blast
    from d1(1) st1 have "d1 \<in> set (descendants (removeNode e (fst st)))" by simp
    then have "\<exists>d0 \<in> set (descendants (fst st)). shell d0 = shell d1" and "nodeId d1 \<noteq> e"
      by (rule descendants_removeNode_shell, rule descendants_removeNode_id)
    moreover have "nodeId d1 = nodeId d" using d1(2) by (rule shell_eq_nodeId)
    ultimately show "(\<exists>e \<in> set (descendants (fst st)). shell e = shell d) \<and> nodeId d \<notin> set (e # es)"
      using d1(2) notin by auto
  qed
qed

lemma removeByTags_clone:
  "removeByTags ts st = Inr st' \<Longrightarrow>
     (\<forall>d \<in> set (descendants (fst st')). (\<exists>e \<in> set (descendants (fst st)). shell e = shell d)
         \<and> (\<forall>t \<in> set ts. \<not> matches (Tags [t]) d))"
proof (induction ts arbitrary: st)
  case Nil
  then show ?case by auto
next
  case (Cons t ts)
  from Cons.prems obtain st1 where
    re: "removeEach (rev (map nodeId (querySelectorAll (fst st) (Tags [t])))) st = Inr st1"
    and rest: "removeByTags ts st1 = Inr st'"
    by (auto simp: Let_def split: sum.splits)
  show ?case
  proof
    fix d assume d: "d \<in> set (descendants (fst st'))"
    from Cons.IH [OF rest] d obtain d1 where
      d1: "d1 \<in> set (descendants (fst st1))" "shell d1 = shell d"
      and others: "\<forall>t \<in> set ts. \<not> matches (Tags [t]) d"
      by blast
    from removeEach_clone [OF re] d1(1) obtain d0 where
      d0: "d0 \<in> set (descendants (fst st))" "shell d0 = shell d1"
      and gone: "nodeId d1 \<notin> set (rev (map nodeId (querySelectorAll (fst st) (Tags [t]))))"
      by blast
    have "\<not> matches (Tags [t]) d"
    proof
      assume "matches (Tags [t]) d"
      then have "matches (Tags [t]) d0"
        using d0(2) d1(2) by (metis shell_eq_matches)
      with d0(1) have "d0 \<in> set (querySelectorAll (fst st) (Tags [t]))"
        by (simp add: querySelectorAll_def)
      then have "nodeId d0 \<in> set (rev (map nodeId (querySelectorAll (fst st) (Tags [t]))))"
        by simp
      moreover have "nodeId d0 = nodeId d1" using d0(2) by (rule shell_eq_nodeId)
      ultimately show False using gone by simp
    qed
    moreover have "\<exists>e \<in> set (descendants (fst st)). shell e = shell d"
      using d0 d1(2) by auto
    ultimately show "(\<exists>e \<in> set (descendants (fst st)). shell e = shell d)
         \<and> (\<forall>t \<in> set (t # ts). \<not> matches (Tags [t]) d)"
      using others by simp
  qed
qed













lemma removeIfListed_total: "\<exists>st'. removeIfListed el st = Inr st'"
  by (cases st) (auto simp: removeIfListed_def removeChild_def Let_def split: option.splits)

lemma removeByClass_total: "\<exists>st'. removeByClass els st = Inr st'"
proof (induction els arbitrary: st)
  case Nil
  then show ?case by simp
next
  case (Cons el els)
  obtain st1 where "removeIfListed el st = Inr st1"
    using removeIfListed_total by blast
  with Cons.IH [of st1] show ?case by simp
qed

text \<open>
  Claim C8. In the class and id pass, an iteration on an element whose parent is
  \<^verbatim>\<open>null\<close> leaves the state as it is, whatever the element's class and id are, and the
  pass ends without raising an error from every state and for every list of elements.
\<close>
theorem class_pass_guard:
  "(parentNode (fst st) (snd st) (nodeId el) = None \<longrightarrow> removeIfListed el st = Inr st)
   \<and> (\<exists>st'. removeByClass els st = Inr st')"
  using removeByClass_total [of els st]
  by (simp add: removeIfListed_def Let_def)

section \<open>The live document during the removal passes\<close>

lemma removeNode_absent:
  "\<forall>d \<in> set (descendants t). nodeId d \<noteq> c \<Longrightarrow> removeNode c t = t"
proof (induction t)
  case (Element i ifc tg a ch)
  have keep: "filter (\<lambda>n. nodeId n \<noteq> c) ch = ch"
    using Element.prems by (auto intro: filter_True)
  have "map (removeNode c) ch = ch"
  proof (rule map_idI)
    fix x assume x: "x \<in> set ch"
    then have "\<forall>d \<in> set (descendants x). nodeId d \<noteq> c"
      using Element.prems by auto
    with x show "removeNode c x = x" by (rule Element.IH)
  qed
  with keep show ?case by simp
next
  case (Text i dt)
  then show ?case by simp
qed

lemma cloneTree_ids:
  "(\<forall>d \<in> set (inclusiveDescendants (fst (cloneTree k n))). k \<le> nodeId d \<and> nodeId d < snd (cloneTree k n))
      \<and> k \<le> snd (cloneTree k n)"
  "(\<forall>c \<in> set (fst (cloneList k ns)). \<forall>d \<in> set (inclusiveDescendants c).
        k \<le> nodeId d \<and> nodeId d < snd (cloneList k ns))
      \<and> k \<le> snd (cloneList k ns)"
proof (induction k n and k ns rule: cloneTree_cloneList.induct)
  case (1 k i d)
  show ?case by (simp add: inclusiveDescendants_def)
next
  case (2 k i ifc t a ch)
  obtain ch' k' where cl: "cloneList (Suc k) ch = (ch', k')" by (cases "cloneList (Suc k) ch")
  with "2.IH" have ih: "\<forall>c \<in> set ch'. \<forall>d \<in> set (inclusiveDescendants c). Suc k \<le> nodeId d \<and> nodeId d < k'"
    and le: "Suc k \<le> k'"
    by auto
  have res: "cloneTree k (Element i ifc t a ch) = (Element k ifc t a ch', k')"
    using cl by simp
  have "\<forall>d \<in> set (inclusiveDescendants (Element k ifc t a ch')). k \<le> nodeId d \<and> nodeId d < k'"
    using ih le by (fastforce simp: inclusiveDescendants_def)
  with le res show ?case by simp
next
  case (3 k)
  show ?case by simp
next
  case (4 k c cs)
  obtain c' k1 where c: "cloneTree k c = (c', k1)" by (cases "cloneTree k c")
  obtain cs' k2 where cs: "cloneList k1 cs = (cs', k2)" by (cases "cloneList k1 cs")
  from "4.IH"(1) c have ih1: "\<forall>d \<in> set (inclusiveDescendants c'). k \<le> nodeId d \<and> nodeId d < k1"
    and le1: "k \<le> k1" by auto
  from "4.IH"(2) [OF c [symmetric] refl] cs
  have ih2: "\<forall>x \<in> set cs'. \<forall>d \<in> set (inclusiveDescendants x). k1 \<le> nodeId d \<and> nodeId d < k2"
    and le2: "k1 \<le> k2" by auto
  have res: "cloneList k (c # cs) = (c' # cs', k2)"
    using c cs by simp
  have "\<forall>x \<in> set (c' # cs'). \<forall>d \<in> set (inclusiveDescendants x). k \<le> nodeId d \<and> nodeId d < k2"
    using ih1 ih2 le1 le2 by fastforce
  with res le1 le2 show ?case by simp
qed

lemma documentElement_liveDocument: "documentElement (liveDocument s) = documentElement s"
  by (simp add: liveDocument_def documentElement_def headElement_def bodyElement_def)

lemma liveDocument_documentElement:
  "liveDocument s' = liveDocument s \<Longrightarrow> documentElement s' = documentElement s"
  by (metis documentElement_liveDocument)

lemma liveBelow_cong: "liveDocument s' = liveDocument s \<Longrightarrow> liveBelow k s' = liveBelow k s"
  using liveDocument_documentElement [of s' s] by (simp add: liveBelow_def)

lemma liveBelow_head:
  "liveBelow k s \<Longrightarrow> d \<in> set (descendants (headElement s)) \<Longrightarrow> nodeId d < k"
  by (auto simp: liveBelow_def documentElement_def inclusiveDescendants_def)

lemma liveBelow_body:
  "liveBelow k s \<Longrightarrow> d \<in> set (descendants (bodyElement s)) \<Longrightarrow> nodeId d < k"
  by (auto simp: liveBelow_def documentElement_def inclusiveDescendants_def)

lemma removeChild_live:
  assumes "removeChild p c st = Inr st'" and "liveBelow k (snd st)" and "k \<le> c"
  shows "liveDocument (snd st') = liveDocument (snd st)"
proof -
  obtain cl s where st: "st = (cl, s)" by (cases st)
  have "\<forall>d \<in> set (descendants (headElement s)). nodeId d \<noteq> c"
    using assms(2,3) st by (fastforce dest: liveBelow_head)
  then have h: "removeNode c (headElement s) = headElement s"
    by (rule removeNode_absent)
  have "\<forall>d \<in> set (descendants (bodyElement s)). nodeId d \<noteq> c"
    using assms(2,3) st by (fastforce dest: liveBelow_body)
  then have b: "removeNode c (bodyElement s) = bodyElement s"
    by (rule removeNode_absent)
  from assms(1) st have "snd st' =
      s\<lparr>headChildren := childNodes (removeNode c (headElement s)),
        bodyChildren := childNodes (removeNode c (bodyElement s)),
        detached := map (removeNode c) (detached s)
                    @ (case nodeById cl s c of None \<Rightarrow> [] | Some n \<Rightarrow> [n])\<rparr>"
    by (auto simp: removeChild_def split: if_splits)
  then have "snd st' = s\<lparr>headChildren := headChildren s, bodyChildren := bodyChildren s,
        detached := map (removeNode c) (detached s)
                    @ (case nodeById cl s c of None \<Rightarrow> [] | Some n \<Rightarrow> [n])\<rparr>"
    unfolding h b by (simp add: headElement_def bodyElement_def)
  then show ?thesis
    using st by (simp add: liveDocument_def)
qed

lemma removeEach_live:
  "removeEach es st = Inr st' \<Longrightarrow> liveBelow k (snd st) \<Longrightarrow> \<forall>e \<in> set es. k \<le> e \<Longrightarrow>
     liveDocument (snd st') = liveDocument (snd st)"
proof (induction es arbitrary: st)
  case Nil
  then show ?case by simp
next
  case (Cons e es)
  from Cons.prems(1) obtain p st1 where
    rc: "removeChild p e st = Inr st1" and rest: "removeEach es st1 = Inr st'"
    by (auto split: option.splits sum.splits)
  from rc Cons.prems(2,3) have 1: "liveDocument (snd st1) = liveDocument (snd st)"
    by (intro removeChild_live [of p e st st1 k]) auto
  then have "liveBelow k (snd st1)"
    using Cons.prems(2) liveBelow_cong [of "snd st1" "snd st" k] by simp
  with rest Cons.prems(3) have "liveDocument (snd st') = liveDocument (snd st1)"
    by (intro Cons.IH) auto
  with 1 show ?case by simp
qed

lemma cloneAbove_shrink:
  "cloneAbove k cl \<Longrightarrow> \<forall>d \<in> set (descendants cl'). \<exists>e \<in> set (descendants cl). shell e = shell d \<Longrightarrow>
     cloneAbove k cl'"
  unfolding cloneAbove_def by (metis shell_eq_nodeId)

lemma removeByTags_live:
  "removeByTags ts st = Inr st' \<Longrightarrow> liveBelow k (snd st) \<Longrightarrow> cloneAbove k (fst st) \<Longrightarrow>
     liveDocument (snd st') = liveDocument (snd st)"
proof (induction ts arbitrary: st)
  case Nil
  then show ?case by simp
next
  case (Cons t ts)
  from Cons.prems(1) obtain st1 where
    re: "removeEach (rev (map nodeId (querySelectorAll (fst st) (Tags [t])))) st = Inr st1"
    and rest: "removeByTags ts st1 = Inr st'"
    by (auto simp: Let_def split: sum.splits)
  have "\<forall>e \<in> set (rev (map nodeId (querySelectorAll (fst st) (Tags [t])))). k \<le> e"
    using Cons.prems(3) by (auto simp: cloneAbove_def querySelectorAll_def)
  with re Cons.prems(2) have 1: "liveDocument (snd st1) = liveDocument (snd st)"
    by (rule removeEach_live)
  then have lb: "liveBelow k (snd st1)"
    using Cons.prems(2) liveBelow_cong [of "snd st1" "snd st" k] by simp
  have "\<forall>d \<in> set (descendants (fst st1)). \<exists>e \<in> set (descendants (fst st)). shell e = shell d"
    using removeEach_clone [OF re] by blast
  with Cons.prems(3) have "cloneAbove k (fst st1)"
    by (rule cloneAbove_shrink)
  with rest lb have "liveDocument (snd st') = liveDocument (snd st1)"
    by (intro Cons.IH)
  with 1 show ?case by simp
qed

lemma removeIfListed_live:
  assumes "removeIfListed el st = Inr st'" and "liveBelow k (snd st)" and "k \<le> nodeId el"
  shows "liveDocument (snd st') = liveDocument (snd st)"
proof (cases "listed el")
  case False
  with assms(1) show ?thesis
    by (simp add: removeIfListed_def listed_def classId_def Let_def)
next
  case True
  show ?thesis
  proof (cases "parentNode (fst st) (snd st) (nodeId el)")
    case None
    with True assms(1) show ?thesis
      by (simp add: removeIfListed_def listed_def classId_def Let_def)
  next
    case (Some p)
    with True assms(1) have "removeChild p (nodeId el) st = Inr st'"
      by (simp add: removeIfListed_def listed_def classId_def Let_def)
    then show ?thesis using assms(2,3) by (rule removeChild_live)
  qed
qed

lemma removeByClass_live:
  "removeByClass els st = Inr st' \<Longrightarrow> liveBelow k (snd st) \<Longrightarrow> \<forall>el \<in> set els. k \<le> nodeId el \<Longrightarrow>
     liveDocument (snd st') = liveDocument (snd st)"
proof (induction els arbitrary: st)
  case Nil
  then show ?case by simp
next
  case (Cons el els)
  from Cons.prems(1) obtain st1 where
    step: "removeIfListed el st = Inr st1" and rest: "removeByClass els st1 = Inr st'"
    by (auto split: sum.splits)
  from step Cons.prems(2,3) have 1: "liveDocument (snd st1) = liveDocument (snd st)"
    by (intro removeIfListed_live [of el st st1 k]) auto
  then have "liveBelow k (snd st1)"
    using Cons.prems(2) liveBelow_cong [of "snd st1" "snd st" k] by simp
  with rest Cons.prems(3) have "liveDocument (snd st') = liveDocument (snd st1)"
    by (intro Cons.IH) auto
  with 1 show ?case by simp
qed

lemma cloneNode_fresh:
  "cloneAbove (nextId s) (fst (cloneNode content s))"
  "liveDocument (snd (cloneNode content s)) = liveDocument s"
proof -
  obtain cl k where c: "cloneTree (nextId s) content = (cl, k)"
    by (cases "cloneTree (nextId s) content")
  with cloneTree_ids(1) [of "nextId s" content]
  have "\<forall>d \<in> set (inclusiveDescendants cl). nextId s \<le> nodeId d" by simp
  then show "cloneAbove (nextId s) (fst (cloneNode content s))"
    using c by (simp add: cloneAbove_def cloneNode_def inclusiveDescendants_def)
  show "liveDocument (snd (cloneNode content s)) = liveDocument s"
    using c by (simp add: cloneNode_def liveDocument_def)
qed

text \<open>
  Claim C9. Cloning and the two removal passes change nothing of the live document:
  when the identity supply is fresh, the state after them differs from the initial one
  in the detached trees and the supply only. The document tree, and with it the subtree
  of the located node, the title and what the locator returns are as before.
\<close>
theorem cleanup_leaves_live_document:
  assumes "freshSupply s" and "cleanClone content s = Inr st'"
  shows "liveDocument (snd st') = liveDocument s
       \<and> documentElement (snd st') = documentElement s
       \<and> document_title (snd st') = document_title s
       \<and> locateContent vis (snd st') = locateContent vis s"
proof -
  let ?k = "nextId s"
  let ?st = "cloneNode content s"
  from assms(2) obtain st1 where
    tags: "removeByTags removeTags ?st = Inr st1"
    and cls: "removeByClass (querySelectorAll (fst st1) Universal) st1 = Inr st'"
    by (auto simp: cleanClone_def Let_def split: sum.splits)
  have live0: "liveDocument (snd ?st) = liveDocument s" and above0: "cloneAbove ?k (fst ?st)"
    by (rule cloneNode_fresh)+
  from assms(1) have "liveBelow ?k s"
    by (simp add: freshSupply_def liveBelow_def)
  then have lb0: "liveBelow ?k (snd ?st)"
    using liveBelow_cong [OF live0, of ?k] by simp
  from tags lb0 above0 have live1: "liveDocument (snd st1) = liveDocument (snd ?st)"
    by (rule removeByTags_live)
  then have lb1: "liveBelow ?k (snd st1)"
    using lb0 liveBelow_cong [of "snd st1" "snd ?st" ?k] by simp
  have "\<forall>d \<in> set (descendants (fst st1)). \<exists>e \<in> set (descendants (fst ?st)). shell e = shell d"
    using removeByTags_clone [OF tags] by blast
  with above0 have above1: "cloneAbove ?k (fst st1)"
    by (rule cloneAbove_shrink)
  then have "\<forall>el \<in> set (querySelectorAll (fst st1) Universal). ?k \<le> nodeId el"
    by (auto simp: cloneAbove_def querySelectorAll_def)
  with cls lb1 have "liveDocument (snd st') = liveDocument (snd st1)"
    by (rule removeByClass_live)
  with live1 live0 have live: "liveDocument (snd st') = liveDocument s" by simp
  then have doc: "documentElement (snd st') = documentElement s"
    by (rule liveDocument_documentElement)
  from doc have ttl: "document_title (snd st') = document_title s"
    by (simp add: document_title_def titleElement_def)
  from live have "bodyElement (liveDocument (snd st')) = bodyElement (liveDocument s)" by simp
  then have be: "bodyElement (snd st') = bodyElement s"
    by (simp add: liveDocument_def bodyElement_def)
  from doc have sem: "semanticContent (snd st') = semanticContent s"
    by (simp add: semanticContent_def document_querySelector_def)
  from doc have cand: "candidates (snd st') = candidates s"
    by (simp add: candidates_def document_querySelectorAll_def)
  have "locateContent vis (snd st') = locateContent vis s"
    unfolding locateContent_def be sem cand by (rule refl)
  with live doc ttl show ?thesis by simp
qed

section \<open>The run completes\<close>

text \<open>
  The clone's identities are consecutive, hence distinct. The matches of a tag are removed
  from last to first, so every entry is still below the clone when its turn comes and its
  parent is found: the tag passes raise nothing, and neither does the script.
\<close>

lemma nodeIds_Element: "nodeIds (Element i ifc t a ch) = childIds ch"
  by (simp add: nodeIds_def childIds_def map_concat comp_def)

lemma nodeIds_Text: "nodeIds (Text i d) = []"
  by (simp add: nodeIds_def)

lemma childIds_simps:
  "childIds [] = []"
  "childIds (c # cs) = nodeId c # nodeIds c @ childIds cs"
  by (simp_all add: childIds_def)

lemma removeNode_children:
  "removeNode e (Element i ifc t a ch) =
     Element i ifc t a (map (removeNode e) (filter (\<lambda>n. nodeId n \<noteq> e) ch))"
  by simp

lemma nodeIds_removeNode_subset: "set (nodeIds (removeNode e t)) \<subseteq> set (nodeIds t)"
proof
  fix x assume "x \<in> set (nodeIds (removeNode e t))"
  then obtain d where d: "d \<in> set (descendants (removeNode e t))" "x = nodeId d"
    by (auto simp: nodeIds_def)
  from descendants_removeNode_shell [OF d(1)] obtain d0 where
    "d0 \<in> set (descendants t)" "shell d0 = shell d" by blast
  then have "d0 \<in> set (descendants t)" and "x = nodeId d0"
    using d(2) shell_eq_nodeId [of d0 d] by simp_all
  then show "x \<in> set (nodeIds t)"
    by (simp add: nodeIds_def)
qed

lemma removeNode_absent_ids: "e \<notin> set (nodeIds t) \<Longrightarrow> removeNode e t = t"
  by (rule removeNode_absent) (auto simp: nodeIds_def)

lemma childIds_removed_subset:
  "set (childIds (map (removeNode e) (filter (\<lambda>n. nodeId n \<noteq> e) ch))) \<subseteq> set (childIds ch)"
proof (induction ch)
  case Nil
  show ?case by simp
next
  case (Cons c cs)
  show ?case
    using Cons nodeIds_removeNode_subset [of e c]
    by (auto simp: childIds_simps nodeId_removeNode)
qed

lemma childIds_distinct_removed:
  assumes ih: "\<And>c. c \<in> set ch \<Longrightarrow> distinct (nodeIds c) \<Longrightarrow> distinct (nodeIds (removeNode e c))"
  shows "distinct (childIds ch) \<Longrightarrow>
           distinct (childIds (map (removeNode e) (filter (\<lambda>n. nodeId n \<noteq> e) ch)))"
  using ih
proof (induction ch)
  case Nil
  show ?case by (simp add: childIds_simps)
next
  case (Cons c cs)
  from Cons.prems(1) have dc: "distinct (nodeIds c)" and dcs: "distinct (childIds cs)"
    and c1: "nodeId c \<notin> set (nodeIds c)" and c2: "nodeId c \<notin> set (childIds cs)"
    and disj: "set (nodeIds c) \<inter> set (childIds cs) = {}"
    by (auto simp: childIds_simps)
  let ?cs' = "map (removeNode e) (filter (\<lambda>n. nodeId n \<noteq> e) cs)"
  have rest: "distinct (childIds ?cs')"
    using Cons.IH dcs Cons.prems(2) by simp
  have sub: "set (childIds ?cs') \<subseteq> set (childIds cs)"
    by (rule childIds_removed_subset)
  show ?case
  proof (cases "nodeId c = e")
    case True
    then show ?thesis using rest by simp
  next
    case False
    have dc': "distinct (nodeIds (removeNode e c))"
      using Cons.prems(2) dc by simp
    have subc: "set (nodeIds (removeNode e c)) \<subseteq> set (nodeIds c)"
      by (rule nodeIds_removeNode_subset)
    from False have "childIds (map (removeNode e) (filter (\<lambda>n. nodeId n \<noteq> e) (c # cs))) =
        nodeId c # nodeIds (removeNode e c) @ childIds ?cs'"
      by (simp add: childIds_simps nodeId_removeNode)
    moreover have "distinct (nodeId c # nodeIds (removeNode e c) @ childIds ?cs')"
      using dc' rest c1 c2 disj sub subc by auto
    ultimately show ?thesis by simp
  qed
qed

lemma nodeIds_distinct_removed:
  "distinct (nodeIds t) \<Longrightarrow> distinct (nodeIds (removeNode e t))"
proof (induction t)
  case (Element i ifc tg a ch)
  have "distinct (childIds (map (removeNode e) (filter (\<lambda>n. nodeId n \<noteq> e) ch)))"
  proof (rule childIds_distinct_removed)
    fix c assume "c \<in> set ch" "distinct (nodeIds c)"
    then show "distinct (nodeIds (removeNode e c))" by (rule Element.IH)
  next
    show "distinct (childIds ch)" using Element.prems by (simp add: nodeIds_Element)
  qed
  then show ?case
    unfolding removeNode_children nodeIds_Element .
next
  case (Text i d)
  then show ?case by simp
qed

lemma childIds_prefix_removed:
  assumes ih: "\<And>c. c \<in> set ch \<Longrightarrow>
      \<exists>rest. nodeIds (removeNode e c) = takeWhile (\<lambda>i. i \<noteq> e) (nodeIds c) @ rest"
  shows "\<exists>rest. childIds (map (removeNode e) (filter (\<lambda>n. nodeId n \<noteq> e) ch)) =
           takeWhile (\<lambda>i. i \<noteq> e) (childIds ch) @ rest"
  using ih
proof (induction ch)
  case Nil
  show ?case by (simp add: childIds_simps)
next
  case (Cons c cs)
  let ?cs' = "map (removeNode e) (filter (\<lambda>n. nodeId n \<noteq> e) cs)"
  from Cons.IH Cons.prems obtain r2 where
    r2: "childIds ?cs' = takeWhile (\<lambda>i. i \<noteq> e) (childIds cs) @ r2"
    by auto
  show ?case
  proof (cases "nodeId c = e")
    case True
    then show ?thesis by (simp add: childIds_simps)
  next
    case False
    then have eq: "childIds (map (removeNode e) (filter (\<lambda>n. nodeId n \<noteq> e) (c # cs))) =
        nodeId c # nodeIds (removeNode e c) @ childIds ?cs'"
      by (simp add: childIds_simps nodeId_removeNode)
    show ?thesis
    proof (cases "e \<in> set (nodeIds c)")
      case True
      from Cons.prems [of c] obtain r1 where
        r1: "nodeIds (removeNode e c) = takeWhile (\<lambda>i. i \<noteq> e) (nodeIds c) @ r1"
        by auto
      have "takeWhile (\<lambda>i. i \<noteq> e) (childIds (c # cs)) =
              nodeId c # takeWhile (\<lambda>i. i \<noteq> e) (nodeIds c)"
        using False True by (simp add: childIds_simps)
      then show ?thesis
        using eq r1 by simp
    next
      case absent: False
      then have same: "removeNode e c = c" by (rule removeNode_absent_ids)
      from absent have "\<forall>x \<in> set (nodeIds c). x \<noteq> e" by auto
      then have "takeWhile (\<lambda>i. i \<noteq> e) (childIds (c # cs)) =
              nodeId c # nodeIds c @ takeWhile (\<lambda>i. i \<noteq> e) (childIds cs)"
        using False by (simp add: childIds_simps takeWhile_append)
      then show ?thesis
        using eq r2 same by simp
    qed
  qed
qed

lemma nodeIds_prefix_removed:
  "\<exists>rest. nodeIds (removeNode e t) = takeWhile (\<lambda>i. i \<noteq> e) (nodeIds t) @ rest"
proof (induction t)
  case (Element i ifc tg a ch)
  have "\<exists>rest. childIds (map (removeNode e) (filter (\<lambda>n. nodeId n \<noteq> e) ch)) =
           takeWhile (\<lambda>i. i \<noteq> e) (childIds ch) @ rest"
    by (rule childIds_prefix_removed) (rule Element.IH)
  then show ?case
    unfolding removeNode_children nodeIds_Element .
next
  case (Text i d)
  show ?case by (simp add: nodeIds_Text)
qed


lemma removedLast_append: "removedLast es ids \<Longrightarrow> removedLast es (ids @ extra)"
  by (induction es) auto

lemma removedLast_same_prefix:
  "removedLast es (pre @ a) \<Longrightarrow> set es \<subseteq> set pre \<Longrightarrow> removedLast es (pre @ b)"
  by (induction es) auto

lemma removedLast_initial:
  "distinct (map f xs) \<Longrightarrow> removedLast (rev (map f (filter Q xs))) (map f xs)"
proof (induction xs rule: rev_induct)
  case Nil
  show ?case by simp
next
  case (snoc y ys)
  then have ih: "removedLast (rev (map f (filter Q ys))) (map f ys)"
    and fresh: "f y \<notin> set (map f ys)"
    by auto
  from ih have keep: "removedLast (rev (map f (filter Q ys))) (map f ys @ [f y])"
    by (rule removedLast_append)
  show ?case
  proof (cases "Q y")
    case False
    with keep show ?thesis by simp
  next
    case True
    from fresh have "\<forall>x \<in> set (map f ys). x \<noteq> f y" by metis
    then have "takeWhile (\<lambda>i. i \<noteq> f y) (map f ys @ [f y]) = map f ys"
      by (simp add: takeWhile_append)
    with True keep show ?thesis by auto
  qed
qed

lemma removedLast_step:
  assumes "removedLast (e # es) ids" and "ids' = takeWhile (\<lambda>i. i \<noteq> e) ids @ rest"
  shows "removedLast es ids'"
proof -
  from assms(1) have sub: "set es \<subseteq> set (takeWhile (\<lambda>i. i \<noteq> e) ids)"
    and old: "removedLast es ids"
    by simp_all
  have "ids = takeWhile (\<lambda>i. i \<noteq> e) ids @ dropWhile (\<lambda>i. i \<noteq> e) ids"
    by simp
  with old have "removedLast es (takeWhile (\<lambda>i. i \<noteq> e) ids @ dropWhile (\<lambda>i. i \<noteq> e) ids)"
    by simp
  from this sub have "removedLast es (takeWhile (\<lambda>i. i \<noteq> e) ids @ rest)"
    by (rule removedLast_same_prefix)
  with assms(2) show ?thesis by simp
qed

lemma firstSome_Some: "Some y \<in> set xs \<Longrightarrow> firstSome xs \<noteq> None"
  by (induction xs rule: firstSome.induct) auto

lemma childIds_member:
  "e \<in> set (childIds ch) \<Longrightarrow>
     (\<exists>c \<in> set ch. nodeId c = e) \<or> (\<exists>c \<in> set ch. e \<in> set (nodeIds c))"
  by (induction ch) (auto simp: childIds_simps)

lemma parentOf_member: "e \<in> set (nodeIds t) \<Longrightarrow> parentOf e t \<noteq> None"
proof (induction t)
  case (Element i ifc tg a ch)
  show ?case
  proof (cases "list_ex (\<lambda>n. nodeId n = e) ch")
    case True
    then show ?thesis by simp
  next
    case False
    with Element.prems obtain c where c: "c \<in> set ch" "e \<in> set (nodeIds c)"
      using childIds_member [of e ch] by (auto simp: nodeIds_Element list_ex_iff)
    then have "parentOf e c \<noteq> None" by (rule Element.IH)
    then obtain p where "parentOf e c = Some p" by auto
    with c(1) have "Some p \<in> set (map (parentOf e) ch)" by force
    then have "firstSome (map (parentOf e) ch) \<noteq> None" by (rule firstSome_Some)
    with False show ?thesis by simp
  qed
next
  case (Text i d)
  then show ?case by (simp add: nodeIds_Text)
qed

lemma parentNode_member:
  "e \<in> set (nodeIds clone) \<Longrightarrow> \<exists>p. parentNode clone s e = Some p"
proof -
  assume "e \<in> set (nodeIds clone)"
  then obtain p where "parentOf e clone = Some p"
    using parentOf_member by fastforce
  then show ?thesis
    by (simp add: parentNode_def allTrees_def)
qed

lemma removeChild_parent:
  "parentNode (fst st) (snd st) c = Some p \<Longrightarrow> \<exists>st'. removeChild p c st = Inr st'"
  by (cases st) (simp add: removeChild_def)

lemma removeEach_completes:
  "removedLast es (nodeIds (fst st)) \<Longrightarrow> distinct (nodeIds (fst st)) \<Longrightarrow>
     \<exists>st'. removeEach es st = Inr st' \<and> distinct (nodeIds (fst st'))"
proof (induction es arbitrary: st)
  case Nil
  then show ?case by simp
next
  case (Cons e es)
  from Cons.prems(1) have "e \<in> set (nodeIds (fst st))" by simp
  then obtain p where p: "parentNode (fst st) (snd st) e = Some p"
    using parentNode_member by blast
  then obtain st1 where st1: "removeChild p e st = Inr st1"
    using removeChild_parent by blast
  then have cl: "fst st1 = removeNode e (fst st)" by (rule removeChild_clone)
  obtain rest where "nodeIds (fst st1) = takeWhile (\<lambda>i. i \<noteq> e) (nodeIds (fst st)) @ rest"
    unfolding cl using nodeIds_prefix_removed by blast
  with Cons.prems(1) have 1: "removedLast es (nodeIds (fst st1))"
    by (rule removedLast_step)
  have 2: "distinct (nodeIds (fst st1))"
    unfolding cl using Cons.prems(2) by (rule nodeIds_distinct_removed)
  from Cons.IH [OF 1 2] obtain st' where
    "removeEach es st1 = Inr st'" "distinct (nodeIds (fst st'))" by blast
  with p st1 show ?case by simp
qed

lemma removeByTags_completes:
  "distinct (nodeIds (fst st)) \<Longrightarrow> \<exists>st'. removeByTags ts st = Inr st'"
proof (induction ts arbitrary: st)
  case Nil
  show ?case by simp
next
  case (Cons t ts)
  have "removedLast (rev (map nodeId (filter (matches (Tags [t])) (descendants (fst st)))))
          (map nodeId (descendants (fst st)))"
    using Cons.prems unfolding nodeIds_def by (rule removedLast_initial)
  then have "removedLast (rev (map nodeId (querySelectorAll (fst st) (Tags [t])))) (nodeIds (fst st))"
    by (simp add: querySelectorAll_def nodeIds_def)
  from removeEach_completes [OF this Cons.prems] obtain st1 where
    st1: "removeEach (rev (map nodeId (querySelectorAll (fst st) (Tags [t])))) st = Inr st1"
    and d1: "distinct (nodeIds (fst st1))"
    by blast
  from Cons.IH [OF d1] obtain st' where "removeByTags ts st1 = Inr st'" by blast
  with st1 show ?case by (simp add: Let_def)
qed

lemma cloneTree_consecutive:
  "map nodeId (inclusiveDescendants (fst (cloneTree k n))) = [k ..< snd (cloneTree k n)]
     \<and> k \<le> snd (cloneTree k n)"
  "childIds (fst (cloneList k ns)) = [k ..< snd (cloneList k ns)] \<and> k \<le> snd (cloneList k ns)"
proof (induction k n and k ns rule: cloneTree_cloneList.induct)
  case (1 k i d)
  show ?case by (simp add: inclusiveDescendants_def upt_rec)
next
  case (2 k i ifc t a ch)
  obtain ch' k' where cl: "cloneList (Suc k) ch = (ch', k')" by (cases "cloneList (Suc k) ch")
  with "2.IH" have ih: "childIds ch' = [Suc k ..< k']" and le: "Suc k \<le> k'"
    by auto
  have "map nodeId (inclusiveDescendants (Element k ifc t a ch')) = k # childIds ch'"
    using nodeIds_Element [of k ifc t a ch'] by (simp add: inclusiveDescendants_def nodeIds_def)
  also have "\<dots> = [k ..< k']"
    using ih le by (simp add: upt_rec [of k k'])
  finally show ?case using cl le by simp
next
  case (3 k)
  show ?case by (simp add: childIds_simps)
next
  case (4 k c cs)
  obtain c' k1 where c: "cloneTree k c = (c', k1)" by (cases "cloneTree k c")
  obtain cs' k2 where cs: "cloneList k1 cs = (cs', k2)" by (cases "cloneList k1 cs")
  from "4.IH"(1) c have ih1: "map nodeId (inclusiveDescendants c') = [k ..< k1]"
    and le1: "k \<le> k1" by auto
  from "4.IH"(2) [OF c [symmetric] refl] cs
  have ih2: "childIds cs' = [k1 ..< k2]" and le2: "k1 \<le> k2" by auto
  have "childIds (c' # cs') = map nodeId (inclusiveDescendants c') @ childIds cs'"
    by (simp add: childIds_simps inclusiveDescendants_def nodeIds_def)
  also have "\<dots> = [k ..< k2]"
    using ih1 ih2 upt_add_eq_append [of k k1 "k2 - k1"] le1 le2 by simp
  finally show ?case using c cs le1 le2 by simp
qed

lemma cloneNode_distinct: "distinct (nodeIds (fst (cloneNode content s)))"
proof -
  obtain cl k where c: "cloneTree (nextId s) content = (cl, k)"
    by (cases "cloneTree (nextId s) content")
  from cloneTree_consecutive(1) [of "nextId s" content] c
  have "map nodeId (inclusiveDescendants cl) = [nextId s ..< k]" by simp
  then have "distinct (map nodeId (inclusiveDescendants cl))" by simp
  then have "distinct (nodeIds cl)"
    by (simp add: inclusiveDescendants_def nodeIds_def)
  with c show ?thesis by (simp add: cloneNode_def)
qed

lemma cleanClone_completes: "\<exists>st'. cleanClone content s = Inr st'"
proof -
  from removeByTags_completes [OF cloneNode_distinct] obtain st1 where
    "removeByTags removeTags (cloneNode content s) = Inr st1" by blast
  moreover obtain st' where "removeByClass (querySelectorAll (fst st1) Universal) st1 = Inr st'"
    using removeByClass_total by blast
  ultimately show ?thesis by (simp add: cleanClone_def Let_def)
qed

lemma run_completes: "\<exists>s'. run vis s = Inr s'"
proof (cases "inReaderMode s")
  case True
  then show ?thesis by (simp add: run_def)
next
  case False
  obtain st where "cleanClone (locateContent vis s) s = Inr st"
    using cleanClone_completes by blast
  with False show ?thesis by (simp add: run_def Let_def)
qed

section \<open>The rebuilt body\<close>








section \<open>The title and the marker\<close>

lemma keptFrom_refl: "keptFrom s s"
  by (auto simp: keptFrom_def)

lemma keptFrom_trans: "keptFrom s t \<Longrightarrow> keptFrom t u \<Longrightarrow> keptFrom s u"
  unfolding keptFrom_def by (metis (no_types, lifting))

lemma removeChild_kept:
  assumes "removeChild p c st = Inr st'"
  shows "keptFrom (snd st) (snd st')"
proof -
  obtain cl s where st: "st = (cl, s)" by (cases st)
  with assms have s': "snd st' =
      s\<lparr>headChildren := childNodes (removeNode c (headElement s)),
        bodyChildren := childNodes (removeNode c (bodyElement s)),
        detached := map (removeNode c) (detached s)
                    @ (case nodeById cl s c of None \<Rightarrow> [] | Some n \<Rightarrow> [n])\<rparr>"
    by (auto simp: removeChild_def split: if_splits)
  have "bodyElement (snd st') = removeNode c (bodyElement s)"
    unfolding s' by (simp add: bodyElement_def)
  then have "\<forall>d \<in> set (descendants (bodyElement (snd st'))).
        \<exists>e \<in> set (descendants (bodyElement s)). shell e = shell d"
    using descendants_removeNode_shell [of _ c "bodyElement s"] by auto
  then show ?thesis
    unfolding keptFrom_def st by (simp add: s')
qed

lemma removeEach_kept:
  "removeEach es st = Inr st' \<Longrightarrow> keptFrom (snd st) (snd st')"
proof (induction es arbitrary: st)
  case Nil
  then show ?case by (simp add: keptFrom_refl)
next
  case (Cons e es)
  from Cons.prems obtain p st1 where
    one: "removeChild p e st = Inr st1" and rest: "removeEach es st1 = Inr st'"
    by (auto split: option.splits sum.splits)
  from removeChild_kept [OF one] Cons.IH [OF rest] show ?case by (rule keptFrom_trans)
qed

lemma removeByTags_kept:
  "removeByTags ts st = Inr st' \<Longrightarrow> keptFrom (snd st) (snd st')"
proof (induction ts arbitrary: st)
  case Nil
  then show ?case by (simp add: keptFrom_refl)
next
  case (Cons t ts)
  from Cons.prems obtain st1 where
    one: "removeEach (rev (map nodeId (querySelectorAll (fst st) (Tags [t])))) st = Inr st1"
    and rest: "removeByTags ts st1 = Inr st'"
    by (auto simp: Let_def split: sum.splits)
  from removeEach_kept [OF one] Cons.IH [OF rest] show ?case by (rule keptFrom_trans)
qed

lemma removeIfListed_kept:
  "removeIfListed el st = Inr st' \<Longrightarrow> keptFrom (snd st) (snd st')"
  by (auto simp: removeIfListed_def Let_def keptFrom_refl
      split: if_splits option.splits dest: removeChild_kept)

lemma removeByClass_kept:
  "removeByClass els st = Inr st' \<Longrightarrow> keptFrom (snd st) (snd st')"
proof (induction els arbitrary: st)
  case Nil
  then show ?case by (simp add: keptFrom_refl)
next
  case (Cons el els)
  from Cons.prems obtain st1 where
    one: "removeIfListed el st = Inr st1" and rest: "removeByClass els st1 = Inr st'"
    by (auto split: sum.splits)
  from removeIfListed_kept [OF one] Cons.IH [OF rest] show ?case by (rule keptFrom_trans)
qed

lemma cleanClone_kept:
  assumes "cleanClone content s = Inr st'"
  shows "keptFrom s (snd st')"
proof -
  from assms obtain st1 where
    tags: "removeByTags removeTags (cloneNode content s) = Inr st1"
    and cls: "removeByClass (querySelectorAll (fst st1) Universal) st1 = Inr st'"
    by (auto simp: cleanClone_def Let_def split: sum.splits)
  obtain cl k where "cloneTree (nextId s) content = (cl, k)"
    by (cases "cloneTree (nextId s) content")
  then have c: "snd (cloneNode content s) = s\<lparr>nextId := k\<rparr>"
    by (simp add: cloneNode_def)
  have be: "bodyElement (s\<lparr>nextId := k\<rparr>) = bodyElement s"
    by (simp add: bodyElement_def)
  have "keptFrom s (snd (cloneNode content s))"
    unfolding c keptFrom_def be by auto
  from this removeByTags_kept [OF tags] have "keptFrom s (snd st1)" by (rule keptFrom_trans)
  from this removeByClass_kept [OF cls] show ?thesis by (rule keptFrom_trans)
qed

lemma descendants_bodyElement:
  "set (descendants (bodyElement s)) = (\<Union>c \<in> set (bodyChildren s). set (inclusiveDescendants c))"
  by (simp add: bodyElement_def inclusiveDescendants_def)

lemma titleElement_rebuilt:
  assumes "headChildren s = [m1, m2, Element i HTMLElement ''TITLE'' [] ch, st]"
    and "\<not> isTitleElement m1" and "descendants m1 = []"
    and "\<not> isTitleElement m2" and "descendants m2 = []"
  shows "titleElement s = Some (Element i HTMLElement ''TITLE'' [] ch)"
  using assms
  by (simp add: titleElement_def documentElement_def headElement_def inclusiveDescendants_def
      toLowerCase_tags)

text \<open>
  Claim C6. For every document without a \<^verbatim>\<open>title\<close> element inside its body, after
  a rebuild the \<^verbatim>\<open>title\<close> element of the document holds the text \<^verbatim>\<open>'Reader: '\<close> followed by
  the extracted title, and \<^verbatim>\<open>document.title\<close> reads that text with the white space at its
  two ends stripped and every inner run of white space collapsed to one space. The
  extracted title is the visible text of the first \<^verbatim>\<open>h1\<close> element of the document when
  there is one and that text is not empty, the former value of \<^verbatim>\<open>document.title\<close>
  otherwise.
\<close>
theorem rebuilt_title:
  assumes "\<not> inReaderMode s" and "run vis s = Inr s'"
    and "\<forall>d \<in> set (descendants (bodyElement s)). \<not> isTitleElement d"
  shows "(\<exists>i j. titleElement s' =
             Some (Element i HTMLElement ''TITLE'' []
                     [Text j (''Reader: '' @ extractTitle vis s)]))
       \<and> document_title s' = stripAndCollapse (''Reader: '' @ extractTitle vis s)
       \<and> extractTitle vis s =
           (case document_querySelectorAll s (Tags [''h1'']) of
              [] \<Rightarrow> document_title s
            | h # _ \<Rightarrow> if vis h \<noteq> [] then vis h else document_title s)"
proof -
  let ?ttl = "extractTitle vis s"
  from assms(1,2) obtain cleaned st where
    cc: "cleanClone (locateContent vis s) s = Inr (cleaned, st)" and
    s': "s' = rebuildBody ?ttl (cleaned, rebuildHead ?ttl st)"
    by (rule run_Inr)
  from cleanClone_kept [OF cc] have kept: "keptFrom s st" by simp
  have "\<forall>d \<in> set (descendants (bodyElement st)). \<not> isTitleElement d"
  proof
    fix d assume "d \<in> set (descendants (bodyElement st))"
    with kept obtain e where e: "e \<in> set (descendants (bodyElement s))" "shell e = shell d"
      unfolding keptFrom_def by blast
    from e(1) assms(3) have "\<not> isTitleElement e" by blast
    then show "\<not> isTitleElement d"
      using shell_eq_isTitleElement [OF e(2)] by simp
  qed
  then have "\<forall>c \<in> set (bodyChildren st). \<forall>d \<in> set (inclusiveDescendants c). \<not> isTitleElement d"
    by (simp add: descendants_bodyElement)
  then have "headChildren (rebuildHead ?ttl st) =
           [Element (nextId st) HTMLElement ''META'' [(''charset'', ''UTF-8'')] [],
            Element (nextId st + 1) HTMLElement ''META''
              [(''name'', ''viewport''),
               (''content'', ''width=device-width, initial-scale=1.0'')] [],
            Element (nextId st + 3) HTMLElement ''TITLE'' []
              [Text (nextId st + 2) (''Reader: '' @ ?ttl)],
            Element (nextId st + 4) HTMLElement ''STYLE'' [] [Text (nextId st + 5) styleText]]"
    by (rule rebuildHead_children)
  then have "headChildren s' =
           [Element (nextId st) HTMLElement ''META'' [(''charset'', ''UTF-8'')] [],
            Element (nextId st + 1) HTMLElement ''META''
              [(''name'', ''viewport''),
               (''content'', ''width=device-width, initial-scale=1.0'')] [],
            Element (nextId st + 3) HTMLElement ''TITLE'' []
              [Text (nextId st + 2) (''Reader: '' @ ?ttl)],
            Element (nextId st + 4) HTMLElement ''STYLE'' [] [Text (nextId st + 5) styleText]]"
    by (simp add: s' rebuildBody_frame)
  then have el: "titleElement s' =
             Some (Element (nextId st + 3) HTMLElement ''TITLE'' []
                     [Text (nextId st + 2) (''Reader: '' @ ?ttl)])"
    by (rule titleElement_rebuilt) (simp_all add: toLowerCase_tags)
  then have ttl: "document_title s' = stripAndCollapse (''Reader: '' @ ?ttl)"
    by (simp add: document_title_def)
  have "extractTitle vis s =
           (case document_querySelectorAll s (Tags [''h1'']) of
              [] \<Rightarrow> document_title s
            | h # _ \<Rightarrow> if vis h \<noteq> [] then vis h else document_title s)"
    by (simp add: extractTitle_def Let_def orElse_empty document_querySelector_first
        split: list.splits)
  with el ttl show ?thesis by blast
qed

text \<open>
  Claim C7. After a rebuild the attribute \<^verbatim>\<open>data-reader-mode\<close> of the body
  element, \<^verbatim>\<open>document.body\<close>, is \<^verbatim>\<open>'true'\<close>; the guard of line 5 reads the same attribute of
  the same element, so the next invocation finds the Reader state and reloads. The
  root element has no part in it: the run leaves its attributes as they were, and the
  guard gives the same answer whatever they are.
\<close>
theorem mode_flag_set_and_read:
  assumes "\<not> inReaderMode s" and "run vis s = Inr s'"
  shows "getAttribute (bodyElement s') ''data-reader-mode'' = Some ''true''
       \<and> inReaderMode s'
       \<and> run vis s' = Inr (s'\<lparr>reloads := Suc (reloads s')\<rparr>)
       \<and> attributes (documentElement s') = attributes (documentElement s)
       \<and> inReaderMode (s'\<lparr>htmlAttrs := a\<rparr>) = inReaderMode s'"
proof -
  from assms obtain cleaned st where
    cc: "cleanClone (locateContent vis s) s = Inr (cleaned, st)" and
    s': "s' = rebuildBody (extractTitle vis s) (cleaned, rebuildHead (extractTitle vis s) st)"
    by (rule run_Inr)
  from s' have marker: "getAttribute (bodyElement s') ''data-reader-mode'' = Some ''true''"
    by (simp add: getAttribute_def bodyElement_def rebuildBody_frame map_of_updateAttr)
  then have guard: "inReaderMode s'"
    by (simp add: inReaderMode_def)
  then have again: "run vis s' = Inr (s'\<lparr>reloads := Suc (reloads s')\<rparr>)"
    by (simp add: run_def)
  from cleanClone_kept [OF cc] have "htmlAttrs st = htmlAttrs s"
    by (simp add: keptFrom_def)
  then have root: "attributes (documentElement s') = attributes (documentElement s)"
    by (simp add: s' documentElement_def rebuildBody_frame rebuildHead_frame)
  have "inReaderMode (s'\<lparr>htmlAttrs := a\<rparr>) = inReaderMode s'"
    by (simp add: inReaderMode_def bodyElement_def)
  with marker guard again root show ?thesis by (intro conjI)
qed
section \<open>The properties on the example pages\<close>

subsection \<open>Evaluating the locator and a run step by step\<close>

lemmas double_arith =
  roundDouble_def binaryExponent_def scaleBy_def roundTiesToEven_def Let_def

lemma locateContent_marker: "semanticContent s = Some c \<Longrightarrow> locateContent vis s = c"
  by (simp add: locateContent_def Let_def)

lemma locateContent_scan:
  "semanticContent s = None \<Longrightarrow> scanCandidates vis (candidates s) None None = Some c \<Longrightarrow>
     locateContent vis s = c"
  by (simp add: locateContent_def Let_def)

lemma locateContent_body:
  "semanticContent s = None \<Longrightarrow> candidates s = [] \<Longrightarrow> locateContent vis s = bodyElement s"
  by (simp add: locateContent_def Let_def)

lemma scan_first_of_two:
  "scoreNode vis a = x \<Longrightarrow> scoreNode vis b = y \<Longrightarrow> \<not> x < y \<Longrightarrow>
     scanCandidates vis [a, b] None None = Some a"
  by (simp add: Let_def)

lemma scan_second_of_two:
  "scoreNode vis a = x \<Longrightarrow> scoreNode vis b = y \<Longrightarrow> x < y \<Longrightarrow>
     scanCandidates vis [a, b] None None = Some b"
  by (simp add: Let_def)

lemma run_steps:
  "\<not> inReaderMode s \<Longrightarrow> locateContent vis s = c \<Longrightarrow> extractTitle vis s = ttl \<Longrightarrow>
     cleanClone c s = Inr st \<Longrightarrow> rebuildBody ttl (fst st, rebuildHead ttl (snd st)) = s' \<Longrightarrow>
     run vis s = Inr s'"
  by (simp add: run_def Let_def)

subsection \<open>The run on \<open>pageA\<close>\<close>

lemma pageA_normal: "\<not> inReaderMode pageA"
  by code_simp

lemma pageA_candidates:
  "semanticContent pageA = None"
  "candidates pageA = [hd (bodyChildren pageA), childNodes (hd (bodyChildren pageA)) ! 2]"
  by code_simp+

lemma pageA_score_first:
  "scoreNode textContent (hd (bodyChildren pageA)) = 1199435244508283 / 2 ^ 45"
proof -
  have args: "length (textContent (hd (bodyChildren pageA))) = 9"
    "length (paragraphDescendants (hd (bodyChildren pageA))) = 3"
    "toLowerCase (tagName (hd (bodyChildren pageA))) = ''div''"
    "classId (hd (bodyChildren pageA)) = ''content ''"
    by code_simp+
  have "scoreFormulaDouble 9 3 ''div'' ''content '' = 1199435244508283 / 2 ^ 45"
    by (simp add: scoreFormulaDouble_def regexTest_def double_arith)
  then show ?thesis by (simp only: scoreNode_steps args)
qed

lemma pageA_score_second:
  "scoreNode textContent (childNodes (hd (bodyChildren pageA)) ! 2) = - 27"
proof -
  have args: "length (textContent (childNodes (hd (bodyChildren pageA)) ! 2)) = 0"
    "length (paragraphDescendants (childNodes (hd (bodyChildren pageA)) ! 2)) = 1"
    "toLowerCase (tagName (childNodes (hd (bodyChildren pageA)) ! 2)) = ''div''"
    "classId (childNodes (hd (bodyChildren pageA)) ! 2) = ''share-box ''"
    by code_simp+
  have "scoreFormulaDouble 0 1 ''div'' ''share-box '' = - 27"
    by (simp add: scoreFormulaDouble_def regexTest_def double_arith)
  then show ?thesis by (simp only: scoreNode_steps args)
qed

lemma pageA_scan:
  "scanCandidates textContent (candidates pageA) None None = Some (hd (bodyChildren pageA))"
  unfolding pageA_candidates
  by (rule scan_first_of_two [OF pageA_score_first pageA_score_second]) simp

lemma pageA_content: "locateContent textContent pageA = hd (bodyChildren pageA)"
  using pageA_candidates(1) pageA_scan by (rule locateContent_scan)

lemma pageA_title: "extractTitle textContent pageA = ''Hello''"
  by code_simp

lemma pageA_clean: "cleanClone (locateContent textContent pageA) pageA = Inr pageA_cleaned"
proof -
  have "cleanClone (hd (bodyChildren pageA)) pageA = Inr pageA_cleaned" by code_simp
  then show ?thesis by (simp only: pageA_content)
qed

lemma pageA_run: "run textContent pageA = Inr pageA_reader"
proof -
  have clean: "cleanClone (hd (bodyChildren pageA)) pageA = Inr pageA_cleaned"
    by code_simp
  have rebuilt: "rebuildBody ''Hello'' (fst pageA_cleaned, rebuildHead ''Hello'' (snd pageA_cleaned))
                   = pageA_reader"
    by code_simp
  from pageA_normal pageA_content pageA_title clean rebuilt show ?thesis by (rule run_steps)
qed

subsection \<open>The runs on the other pages\<close>

lemma pageE_normal: "\<not> inReaderMode pageE"
  by code_simp

lemma pageE_candidates: "semanticContent pageE = None" "candidates pageE = []"
  by code_simp+

lemma pageE_title: "extractTitle textContent pageE = []"
  by code_simp

lemma pageE_run: "run textContent pageE = Inr pageE_reader"
proof -
  have content: "locateContent textContent pageE = bodyElement pageE"
    using pageE_candidates by (rule locateContent_body)
  have clean: "cleanClone (bodyElement pageE) pageE =
                 Inr (Element 5 HTMLElement ''BODY'' []
                        [Element 6 HTMLElement ''P'' [] [Text 7 ''only'']],
                      pageE\<lparr>nextId := 8\<rparr>)"
    by code_simp
  have rebuilt: "rebuildBody []
                   (fst (Element 5 HTMLElement ''BODY'' []
                           [Element 6 HTMLElement ''P'' [] [Text 7 ''only'']],
                         pageE\<lparr>nextId := 8\<rparr>),
                    rebuildHead []
                      (snd (Element 5 HTMLElement ''BODY'' []
                              [Element 6 HTMLElement ''P'' [] [Text 7 ''only'']],
                            pageE\<lparr>nextId := 8\<rparr>)))
                 = pageE_reader"
    by code_simp
  from pageE_normal content pageE_title clean rebuilt show ?thesis by (rule run_steps)
qed



lemma pageTitleInBody_normal: "\<not> inReaderMode pageTitleInBody"
  by code_simp

lemma pageTitleInBody_title: "extractTitle textContent pageTitleInBody = ''Old''"
  by code_simp

lemma pageTitleInBody_run: "run textContent pageTitleInBody = Inr pageTitleInBody_reader"
proof -
  have "semanticContent pageTitleInBody = Some (bodyChildren pageTitleInBody ! 1)"
    by code_simp
  then have content: "locateContent textContent pageTitleInBody = bodyChildren pageTitleInBody ! 1"
    by (rule locateContent_marker)
  have clean: "cleanClone (bodyChildren pageTitleInBody ! 1) pageTitleInBody =
                 Inr (Element 8 HTMLElement ''ARTICLE'' []
                        [Element 9 HTMLElement ''P'' [] [Text 10 ''text'']],
                      pageTitleInBody\<lparr>nextId := 11\<rparr>)"
    by code_simp
  have rebuilt: "rebuildBody ''Old''
                   (fst (Element 8 HTMLElement ''ARTICLE'' []
                           [Element 9 HTMLElement ''P'' [] [Text 10 ''text'']],
                         pageTitleInBody\<lparr>nextId := 11\<rparr>),
                    rebuildHead ''Old''
                      (snd (Element 8 HTMLElement ''ARTICLE'' []
                              [Element 9 HTMLElement ''P'' [] [Text 10 ''text'']],
                            pageTitleInBody\<lparr>nextId := 11\<rparr>)))
                 = pageTitleInBody_reader"
    by code_simp
  from pageTitleInBody_normal content pageTitleInBody_title clean rebuilt
  show ?thesis by (rule run_steps)
qed

subsection \<open>The rebuilt body\<close>



subsection \<open>The guard\<close>

text \<open>A run on \<open>pageA_reader\<close>, which is in the Reader state, requests the reload only.\<close>

theorem reader_state_reloads_witness:
  "inReaderMode pageA_reader
   \<and> run textContent pageA_reader = Inr (pageA_reader\<lparr>reloads := Suc (reloads pageA_reader)\<rparr>)
   \<and> reloads pageA_reader = 0"
proof -
  have r: "inReaderMode pageA_reader" by code_simp
  have z: "reloads pageA_reader = 0" by code_simp
  from r reader_state_reloads [OF r, of textContent] z show ?thesis by (intro conjI)
qed

subsection \<open>The score\<close>





subsection \<open>The locator\<close>

lemma pageTie_candidates:
  "semanticContent pageTie = None"
  "candidates pageTie = [bodyChildren pageTie ! 0, bodyChildren pageTie ! 1]"
  by code_simp+

lemma pageTie_args:
  "length (textContent (bodyChildren pageTie ! 0)) = 1"
  "length (paragraphDescendants (bodyChildren pageTie ! 0)) = 0"
  "toLowerCase (tagName (bodyChildren pageTie ! 0)) = ''div''"
  "classId (bodyChildren pageTie ! 0) = '' ''"
  "toLowerCase (classAttribute (bodyChildren pageTie ! 0) @ '' '' @
                idAttr (bodyChildren pageTie ! 0)) = '' ''"
  "length (textContent (bodyChildren pageTie ! 1)) = 1"
  "length (paragraphDescendants (bodyChildren pageTie ! 1)) = 10"
  "toLowerCase (tagName (bodyChildren pageTie ! 1)) = ''div''"
  "classId (bodyChildren pageTie ! 1) = ''nav ''"
  "toLowerCase (classAttribute (bodyChildren pageTie ! 1) @ '' '' @
                idAttr (bodyChildren pageTie ! 1)) = ''nav ''"
  by code_simp+

lemma pageTie_scores:
  "scoreNode textContent (bodyChildren pageTie ! 0) = 5764607523034235 / 2 ^ 59"
  "scoreNode textContent (bodyChildren pageTie ! 1) = 5764607523035136 / 2 ^ 59"
proof -
  have "scoreFormulaDouble 1 0 ''div'' '' '' = 5764607523034235 / 2 ^ 59"
    by (simp add: scoreFormulaDouble_def regexTest_def double_arith)
  then show "scoreNode textContent (bodyChildren pageTie ! 0) = 5764607523034235 / 2 ^ 59"
    by (simp only: scoreNode_steps pageTie_args)
  have "scoreFormulaDouble 1 10 ''div'' ''nav '' = 5764607523035136 / 2 ^ 59"
    by (simp add: scoreFormulaDouble_def regexTest_def double_arith)
  then show "scoreNode textContent (bodyChildren pageTie ! 1) = 5764607523035136 / 2 ^ 59"
    by (simp only: scoreNode_steps pageTie_args)
qed

text \<open>
  \<open>pageTie\<close> has no marker and two candidates. By the sum of the specification both
  score \<open>1 / 100\<close>: the first has one character of text, the second one character, ten
  paragraphs and the class nav, \<open>1 / 100 + 30 - 30\<close>. The script computes
  \<open>(0.01 + 30) - 30\<close> in doubles, which is above \<open>0.01\<close>, and returns the second
  candidate.
\<close>

theorem heuristic_selection_counterexample:
  "document_querySelector pageTie (Tags [''article'']) = None
   \<and> document_querySelector pageTie (Attr ''role'' ''main'') = None
   \<and> document_querySelector pageTie (Tags [''main'']) = None
   \<and> candidates pageTie = [bodyChildren pageTie ! 0, bodyChildren pageTie ! 1]
   \<and> scoreFormula (length (textContent (bodyChildren pageTie ! 0)))
        (length (paragraphDescendants (bodyChildren pageTie ! 0)))
        (toLowerCase (tagName (bodyChildren pageTie ! 0)))
        (toLowerCase (classAttribute (bodyChildren pageTie ! 0) @ '' '' @
                      idAttr (bodyChildren pageTie ! 0))) = 1 / 100
   \<and> scoreFormula (length (textContent (bodyChildren pageTie ! 1)))
        (length (paragraphDescendants (bodyChildren pageTie ! 1)))
        (toLowerCase (tagName (bodyChildren pageTie ! 1)))
        (toLowerCase (classAttribute (bodyChildren pageTie ! 1) @ '' '' @
                      idAttr (bodyChildren pageTie ! 1))) = 1 / 100
   \<and> locateContent textContent pageTie = bodyChildren pageTie ! 1
   \<and> nodeId (bodyChildren pageTie ! 0) = 3 \<and> nodeId (bodyChildren pageTie ! 1) = 5
   \<and> scoreNode textContent (bodyChildren pageTie ! 0) = 5764607523034235 / 2 ^ 59
   \<and> scoreNode textContent (bodyChildren pageTie ! 1) = 5764607523035136 / 2 ^ 59"
proof -
  have a: "document_querySelector pageTie (Tags [''article'']) = None" by code_simp
  have r: "document_querySelector pageTie (Attr ''role'' ''main'') = None" by code_simp
  have m: "document_querySelector pageTie (Tags [''main'']) = None" by code_simp
  have "scoreFormula 1 0 ''div'' '' '' = 1 / 100"
    by (simp add: scoreFormula_def regexTest_def)
  then have f0: "scoreFormula (length (textContent (bodyChildren pageTie ! 0)))
        (length (paragraphDescendants (bodyChildren pageTie ! 0)))
        (toLowerCase (tagName (bodyChildren pageTie ! 0)))
        (toLowerCase (classAttribute (bodyChildren pageTie ! 0) @ '' '' @
                      idAttr (bodyChildren pageTie ! 0))) = 1 / 100"
    by (simp only: pageTie_args)
  have "scoreFormula 1 10 ''div'' ''nav '' = 1 / 100"
    by (simp add: scoreFormula_def regexTest_def)
  then have f1: "scoreFormula (length (textContent (bodyChildren pageTie ! 1)))
        (length (paragraphDescendants (bodyChildren pageTie ! 1)))
        (toLowerCase (tagName (bodyChildren pageTie ! 1)))
        (toLowerCase (classAttribute (bodyChildren pageTie ! 1) @ '' '' @
                      idAttr (bodyChildren pageTie ! 1))) = 1 / 100"
    by (simp only: pageTie_args)
  have "scanCandidates textContent (candidates pageTie) None None
          = Some (bodyChildren pageTie ! 1)"
    unfolding pageTie_candidates
    by (rule scan_second_of_two [OF pageTie_scores]) simp
  with pageTie_candidates(1) have l: "locateContent textContent pageTie = bodyChildren pageTie ! 1"
    by (rule locateContent_scan)
  have i: "nodeId (bodyChildren pageTie ! 0) = 3" "nodeId (bodyChildren pageTie ! 1) = 5"
    by code_simp+
  from a r m pageTie_candidates(2) f0 f1 l i pageTie_scores show ?thesis by (intro conjI)
qed

lemma pageB_scores:
  "scoreNode textContent (Element 3 HTMLElement ''DIV'' [] [Text 4 ''abc''])
     = 1080863910568919 / 2 ^ 55"
  "scoreNode textContent (Element 5 HTMLElement ''SECTION'' [] [Text 6 ''xyz''])
     = 1080863910568919 / 2 ^ 55"
proof -
  have args: "length (textContent (Element 3 HTMLElement ''DIV'' [] [Text 4 ''abc''])) = 3"
    "length (paragraphDescendants (Element 3 HTMLElement ''DIV'' [] [Text 4 ''abc''])) = 0"
    "toLowerCase (tagName (Element 3 HTMLElement ''DIV'' [] [Text 4 ''abc''])) = ''div''"
    "classId (Element 3 HTMLElement ''DIV'' [] [Text 4 ''abc'']) = '' ''"
    "length (textContent (Element 5 HTMLElement ''SECTION'' [] [Text 6 ''xyz''])) = 3"
    "length (paragraphDescendants (Element 5 HTMLElement ''SECTION'' [] [Text 6 ''xyz''])) = 0"
    "toLowerCase (tagName (Element 5 HTMLElement ''SECTION'' [] [Text 6 ''xyz''])) = ''section''"
    "classId (Element 5 HTMLElement ''SECTION'' [] [Text 6 ''xyz'']) = '' ''"
    by code_simp+
  have "scoreFormulaDouble 3 0 ''div'' '' '' = 1080863910568919 / 2 ^ 55"
    by (simp add: scoreFormulaDouble_def regexTest_def double_arith)
  then show "scoreNode textContent (Element 3 HTMLElement ''DIV'' [] [Text 4 ''abc''])
     = 1080863910568919 / 2 ^ 55"
    by (simp only: scoreNode_steps args)
  have "scoreFormulaDouble 3 0 ''section'' '' '' = 1080863910568919 / 2 ^ 55"
    by (simp add: scoreFormulaDouble_def regexTest_def double_arith)
  then show "scoreNode textContent (Element 5 HTMLElement ''SECTION'' [] [Text 6 ''xyz''])
     = 1080863910568919 / 2 ^ 55"
    by (simp only: scoreNode_steps args)
qed

text \<open>The fallback scan on \<open>pageB\<close>, where two candidates have the same score and the
  first is returned, and on \<open>pageE\<close>, where the body is returned.\<close>

theorem heuristic_selection_witness:
  "document_querySelector pageB (Tags [''article'']) = None
   \<and> document_querySelector pageB (Attr ''role'' ''main'') = None
   \<and> document_querySelector pageB (Tags [''main'']) = None
   \<and> candidates pageB = [Element 3 HTMLElement ''DIV'' [] [Text 4 ''abc''],
                          Element 5 HTMLElement ''SECTION'' [] [Text 6 ''xyz'']]
   \<and> scoreNode textContent (Element 3 HTMLElement ''DIV'' [] [Text 4 ''abc''])
       = scoreNode textContent (Element 5 HTMLElement ''SECTION'' [] [Text 6 ''xyz''])
   \<and> locateContent textContent pageB = Element 3 HTMLElement ''DIV'' [] [Text 4 ''abc'']
   \<and> document_querySelector pageE (Tags [''article'']) = None
   \<and> document_querySelector pageE (Attr ''role'' ''main'') = None
   \<and> document_querySelector pageE (Tags [''main'']) = None
   \<and> candidates pageE = []
   \<and> locateContent textContent pageE = bodyElement pageE"
proof -
  have a: "document_querySelector pageB (Tags [''article'']) = None" by code_simp
  have r: "document_querySelector pageB (Attr ''role'' ''main'') = None" by code_simp
  have m: "document_querySelector pageB (Tags [''main'']) = None" by code_simp
  have c: "candidates pageB = [Element 3 HTMLElement ''DIV'' [] [Text 4 ''abc''],
                               Element 5 HTMLElement ''SECTION'' [] [Text 6 ''xyz'']]"
    by code_simp
  have tie: "scoreNode textContent (Element 3 HTMLElement ''DIV'' [] [Text 4 ''abc''])
       = scoreNode textContent (Element 5 HTMLElement ''SECTION'' [] [Text 6 ''xyz''])"
    by (simp only: pageB_scores)
  from heuristic_selection [OF a r m, of textContent] c
  obtain pre x post where
    split: "[Element 3 HTMLElement ''DIV'' [] [Text 4 ''abc''],
             Element 5 HTMLElement ''SECTION'' [] [Text 6 ''xyz'']] = pre @ x # post"
    and res: "locateContent textContent pageB = x"
    and before: "\<forall>y \<in> set pre. scoreNode textContent y < scoreNode textContent x"
    by auto
  have "pre = []"
  proof (cases pre)
    case Nil
    then show ?thesis .
  next
    case (Cons y ys)
    with split have y: "y = Element 3 HTMLElement ''DIV'' [] [Text 4 ''abc'']"
      and x: "x = Element 5 HTMLElement ''SECTION'' [] [Text 6 ''xyz'']"
      by (auto simp: Cons_eq_append_conv)
    from before Cons have "scoreNode textContent y < scoreNode textContent x" by simp
    with tie y x show ?thesis by simp
  qed
  with split res
  have l: "locateContent textContent pageB = Element 3 HTMLElement ''DIV'' [] [Text 4 ''abc'']"
    by simp
  have a': "document_querySelector pageE (Tags [''article'']) = None" by code_simp
  have r': "document_querySelector pageE (Attr ''role'' ''main'') = None" by code_simp
  have m': "document_querySelector pageE (Tags [''main'']) = None" by code_simp
  have c': "candidates pageE = []" by code_simp
  from heuristic_selection [OF a' r' m', of textContent] c'
  have l': "locateContent textContent pageE = bodyElement pageE" by blast
  from a r m c tie l a' r' m' c' l' show ?thesis by (intro conjI)
qed

lemma pageC_scores:
  "scoreNode textContent (Element 6 HTMLElement ''ARTICLE'' [] []) = 0"
  "scoreNode textContent
     (Element 3 HTMLElement ''DIV'' [(''class'', ''content'')]
        [Element 4 HTMLElement ''P'' [] [Text 5 ''long'']]) = 3946279173483397 / 2 ^ 47"
proof -
  let ?a = "Element 6 HTMLElement ''ARTICLE'' [] []"
  let ?d = "Element 3 HTMLElement ''DIV'' [(''class'', ''content'')]
              [Element 4 HTMLElement ''P'' [] [Text 5 ''long'']]"
  have args: "length (textContent ?a) = 0" "length (paragraphDescendants ?a) = 0"
    "toLowerCase (tagName ?a) = ''article''" "classId ?a = '' ''"
    "length (textContent ?d) = 4" "length (paragraphDescendants ?d) = 1"
    "toLowerCase (tagName ?d) = ''div''" "classId ?d = ''content ''"
    by code_simp+
  have "scoreFormulaDouble 0 0 ''article'' '' '' = 0"
    by (simp add: scoreFormulaDouble_def regexTest_def double_arith)
  then show "scoreNode textContent ?a = 0"
    by (simp only: scoreNode_steps args)
  have "scoreFormulaDouble 4 1 ''div'' ''content '' = 3946279173483397 / 2 ^ 47"
    by (simp add: scoreFormulaDouble_def regexTest_def double_arith)
  then show "scoreNode textContent ?d = 3946279173483397 / 2 ^ 47"
    by (simp only: scoreNode_steps args)
qed

text \<open>The markers on \<open>pageC\<close>, where the article is returned although the div before it
  scores higher, and on \<open>pageD\<close>, where the element with role main is returned although
  the main element comes first.\<close>

theorem semantic_marker_priority_witness:
  "document_querySelectorAll pageC (Tags [''article'']) = [Element 6 HTMLElement ''ARTICLE'' [] []]
   \<and> locateContent textContent pageC = Element 6 HTMLElement ''ARTICLE'' [] []
   \<and> scoreNode textContent (Element 6 HTMLElement ''ARTICLE'' [] [])
       < scoreNode textContent
           (Element 3 HTMLElement ''DIV'' [(''class'', ''content'')]
              [Element 4 HTMLElement ''P'' [] [Text 5 ''long'']])
   \<and> Element 3 HTMLElement ''DIV'' [(''class'', ''content'')]
        [Element 4 HTMLElement ''P'' [] [Text 5 ''long'']]
       \<in> set (candidates pageC)
   \<and> document_querySelectorAll pageD (Tags [''article'']) = []
   \<and> document_querySelectorAll pageD (Attr ''role'' ''main'')
       = [Element 5 HTMLElement ''DIV'' [(''role'', ''main'')] [Text 6 ''second'']]
   \<and> document_querySelectorAll pageD (Tags [''main''])
       = [Element 3 HTMLElement ''MAIN'' [] [Text 4 ''first'']]
   \<and> locateContent textContent pageD
       = Element 5 HTMLElement ''DIV'' [(''role'', ''main'')] [Text 6 ''second'']"
proof -
  have a: "document_querySelectorAll pageC (Tags [''article''])
             = [Element 6 HTMLElement ''ARTICLE'' [] []]"
    by code_simp
  have s: "scoreNode textContent (Element 6 HTMLElement ''ARTICLE'' [] [])
       < scoreNode textContent
           (Element 3 HTMLElement ''DIV'' [(''class'', ''content'')]
              [Element 4 HTMLElement ''P'' [] [Text 5 ''long'']])"
    unfolding pageC_scores by simp
  have c: "Element 3 HTMLElement ''DIV'' [(''class'', ''content'')]
             [Element 4 HTMLElement ''P'' [] [Text 5 ''long'']]
       \<in> set (candidates pageC)"
    by code_simp
  from semantic_marker_priority [of pageC textContent] a
  have l: "locateContent textContent pageC = Element 6 HTMLElement ''ARTICLE'' [] []" by simp
  have a': "document_querySelectorAll pageD (Tags [''article'']) = []" by code_simp
  have r': "document_querySelectorAll pageD (Attr ''role'' ''main'')
       = [Element 5 HTMLElement ''DIV'' [(''role'', ''main'')] [Text 6 ''second'']]"
    by code_simp
  have m': "document_querySelectorAll pageD (Tags [''main''])
       = [Element 3 HTMLElement ''MAIN'' [] [Text 4 ''first'']]"
    by code_simp
  from semantic_marker_priority [of pageD textContent] a' r'
  have l': "locateContent textContent pageD
              = Element 5 HTMLElement ''DIV'' [(''role'', ''main'')] [Text 6 ''second'']"
    by simp
  from a l s c a' r' m' l' show ?thesis by (intro conjI)
qed

subsection \<open>The title\<close>

text \<open>
  On \<open>pageE\<close> the extracted title is empty: the script assigns \<^verbatim>\<open>'Reader: '\<close>, and
  \<^verbatim>\<open>document.title\<close> reads \<^verbatim>\<open>'Reader:'\<close> afterwards, without the space. On
  \<open>pageTitleInBody\<close> the assignment goes to the \<^verbatim>\<open>title\<close> element in the body, which the
  script then removes with the rest of the body: \<^verbatim>\<open>document.title\<close> reads the empty
  string afterwards.
\<close>

theorem rebuilt_title_counterexample:
  "\<not> inReaderMode pageE \<and> run textContent pageE = Inr pageE_reader
   \<and> extractTitle textContent pageE = []
   \<and> document_title pageE_reader = ''Reader:''
   \<and> document_title pageE_reader \<noteq> ''Reader: '' @ extractTitle textContent pageE
   \<and> \<not> inReaderMode pageTitleInBody
   \<and> run textContent pageTitleInBody = Inr pageTitleInBody_reader
   \<and> extractTitle textContent pageTitleInBody = ''Old''
   \<and> document_title pageTitleInBody_reader = []
   \<and> document_title pageTitleInBody_reader
       \<noteq> ''Reader: '' @ extractTitle textContent pageTitleInBody"
proof -
  have e: "document_title pageE_reader = ''Reader:''" by code_simp
  then have e': "document_title pageE_reader \<noteq> ''Reader: '' @ extractTitle textContent pageE"
    by (simp add: pageE_title)
  have t: "document_title pageTitleInBody_reader = []" by code_simp
  then have t': "document_title pageTitleInBody_reader
       \<noteq> ''Reader: '' @ extractTitle textContent pageTitleInBody"
    by simp
  from pageE_normal pageE_run pageE_title e e'
    pageTitleInBody_normal pageTitleInBody_run pageTitleInBody_title t t'
  show ?thesis by (intro conjI)
qed

text \<open>The title of \<open>pageA\<close>, which has no \<^verbatim>\<open>title\<close> element in its body, after the run: the
  heading text with the prefix.\<close>

theorem rebuilt_title_witness:
  "\<not> inReaderMode pageA \<and> run textContent pageA = Inr pageA_reader
   \<and> filter isTitleElement (descendants (bodyElement pageA)) = []
   \<and> titleElement pageA_reader
       = Some (Element 26 HTMLElement ''TITLE'' [] [Text 25 ''Reader: Hello''])
   \<and> document_title pageA_reader = ''Reader: Hello''
   \<and> extractTitle textContent pageA = ''Hello''
   \<and> document_title pageA = ''Page''"
proof -
  have f: "filter isTitleElement (descendants (bodyElement pageA)) = []" by code_simp
  then have none: "\<forall>d \<in> set (descendants (bodyElement pageA)). \<not> isTitleElement d"
    by (simp only: filter_empty_conv)
  have el: "titleElement pageA_reader
       = Some (Element 26 HTMLElement ''TITLE'' [] [Text 25 ''Reader: Hello''])"
    by code_simp
  have s: "stripAndCollapse ''Reader: Hello'' = ''Reader: Hello''" by code_simp
  have p: "document_title pageA = ''Page''" by code_simp
  from rebuilt_title [OF pageA_normal pageA_run none]
  have "document_title pageA_reader = stripAndCollapse (''Reader: '' @ extractTitle textContent pageA)"
    by blast
  then have t: "document_title pageA_reader = ''Reader: Hello''"
    by (simp add: pageA_title s)
  from pageA_normal pageA_run f el t pageA_title p show ?thesis by (intro conjI)
qed

subsection \<open>The marker\<close>

text \<open>
  After the run on \<open>pageA\<close> the root element carries no attribute
  \<^verbatim>\<open>data-reader-mode\<close>: the marker is on the body. \<open>pageRoot\<close> carries the marker on its
  root element, and the guard does not find the Reader state there.
\<close>

theorem mode_flag_set_and_read_counterexample:
  "\<not> inReaderMode pageA \<and> run textContent pageA = Inr pageA_reader
   \<and> getAttribute (documentElement pageA_reader) ''data-reader-mode'' = None
   \<and> getAttribute (bodyElement pageA_reader) ''data-reader-mode'' = Some ''true''
   \<and> getAttribute (documentElement pageRoot) ''data-reader-mode'' = Some ''true''
   \<and> \<not> inReaderMode pageRoot"
proof -
  have a: "getAttribute (documentElement pageA_reader) ''data-reader-mode'' = None"
    "getAttribute (bodyElement pageA_reader) ''data-reader-mode'' = Some ''true''"
    "getAttribute (documentElement pageRoot) ''data-reader-mode'' = Some ''true''"
    "\<not> inReaderMode pageRoot"
    by code_simp+
  from pageA_normal pageA_run a show ?thesis by (intro conjI)
qed

text \<open>The marker of \<open>pageA\<close> after the run: it is set on the body, and the next run
  reloads; the root has no attribute before and after.\<close>

theorem mode_flag_set_and_read_witness:
  "\<not> inReaderMode pageA \<and> run textContent pageA = Inr pageA_reader
   \<and> getAttribute (bodyElement pageA_reader) ''data-reader-mode'' = Some ''true''
   \<and> inReaderMode pageA_reader
   \<and> run textContent pageA_reader = Inr (pageA_reader\<lparr>reloads := Suc (reloads pageA_reader)\<rparr>)
   \<and> attributes (documentElement pageA_reader) = attributes (documentElement pageA)
   \<and> attributes (documentElement pageA) = []
   \<and> inReaderMode (pageA_reader\<lparr>htmlAttrs := [(''data-reader-mode'', ''false'')]\<rparr>)"
proof -
  have r: "attributes (documentElement pageA) = []" by code_simp
  note inst = mode_flag_set_and_read [OF pageA_normal pageA_run,
      of "[(''data-reader-mode'', ''false'')]"]
  from inst have 1: "getAttribute (bodyElement pageA_reader) ''data-reader-mode'' = Some ''true''"
    and 2: "inReaderMode pageA_reader"
    and 3: "run textContent pageA_reader
              = Inr (pageA_reader\<lparr>reloads := Suc (reloads pageA_reader)\<rparr>)"
    and 4: "attributes (documentElement pageA_reader) = attributes (documentElement pageA)"
    and 5: "inReaderMode (pageA_reader\<lparr>htmlAttrs := [(''data-reader-mode'', ''false'')]\<rparr>)"
    by blast+
  from pageA_normal pageA_run 1 2 3 4 r 5 show ?thesis by (intro conjI)
qed

subsection \<open>The removal passes\<close>

text \<open>The guard on the share box that the pass detached from the clone of \<open>pageA\<close>: its
  parent is \<^verbatim>\<open>null\<close>, it is on the list, and the iteration changes nothing.\<close>

theorem class_pass_guard_witness:
  "parentNode (fst pageA_cleaned) (snd pageA_cleaned)
      (nodeId (Element 19 HTMLElement ''DIV'' [(''class'', ''Share-Box'')] [])) = None
   \<and> listed (Element 19 HTMLElement ''DIV'' [(''class'', ''Share-Box'')] [])
   \<and> removeIfListed (Element 19 HTMLElement ''DIV'' [(''class'', ''Share-Box'')] []) pageA_cleaned
       = Inr pageA_cleaned"
proof -
  have p: "parentNode (fst pageA_cleaned) (snd pageA_cleaned)
      (nodeId (Element 19 HTMLElement ''DIV'' [(''class'', ''Share-Box'')] [])) = None"
    by code_simp
  have l: "listed (Element 19 HTMLElement ''DIV'' [(''class'', ''Share-Box'')] [])"
    by code_simp
  from class_pass_guard [of pageA_cleaned
      "Element 19 HTMLElement ''DIV'' [(''class'', ''Share-Box'')] []" "[]"] p
  have "removeIfListed (Element 19 HTMLElement ''DIV'' [(''class'', ''Share-Box'')] [])
          pageA_cleaned = Inr pageA_cleaned"
    by blast
  with p l show ?thesis by (intro conjI)
qed

text \<open>Cleaning the clone of \<open>pageA\<close>: the clone is a new tree, the document is as before.\<close>

theorem cleanup_leaves_live_document_witness:
  "freshSupply pageA
   \<and> cleanClone (locateContent textContent pageA) pageA = Inr pageA_cleaned
   \<and> documentElement (snd pageA_cleaned) = documentElement pageA
   \<and> fst pageA_cleaned \<noteq> locateContent textContent pageA"
proof -
  have f: "freshSupply pageA" by code_simp
  have "fst pageA_cleaned \<noteq> hd (bodyChildren pageA)" by code_simp
  then have n: "fst pageA_cleaned \<noteq> locateContent textContent pageA"
    unfolding pageA_content .
  from cleanup_leaves_live_document [OF f pageA_clean, of textContent] f pageA_clean n
  show ?thesis by (intro conjI) simp_all
qed

text \<open>The own-tag penalty on the first candidate of \<open>pageA\<close>, which the scan selects.\<close>

theorem candidate_score_without_tag_penalty_witness:
  "hd (bodyChildren pageA) \<in> set (candidates pageA)
   \<and> toLowerCase (tagName (hd (bodyChildren pageA))) = ''div''
   \<and> scoreNode textContent (hd (bodyChildren pageA))
       = scoreWithoutOwnTagPenalty textContent (hd (bodyChildren pageA))
   \<and> scanWith (scoreWithoutOwnTagPenalty textContent) (candidates pageA) None None
       = Some (hd (bodyChildren pageA))"
proof -
  have c: "hd (bodyChildren pageA) \<in> set (candidates pageA)" by code_simp
  have t: "toLowerCase (tagName (hd (bodyChildren pageA))) = ''div''" by code_simp
  note r = pageA_scan
  from candidate_score_without_tag_penalty [of pageA textContent]
  have each: "\<forall>c \<in> set (candidates pageA). scoreNode textContent c = scoreWithoutOwnTagPenalty textContent c"
    and scan: "scanCandidates textContent (candidates pageA) None None =
       scanWith (scoreWithoutOwnTagPenalty textContent) (candidates pageA) None None"
    by blast+
  from each c have "scoreNode textContent (hd (bodyChildren pageA))
       = scoreWithoutOwnTagPenalty textContent (hd (bodyChildren pageA))"
    by (rule bspec)
  moreover from scan r have "scanWith (scoreWithoutOwnTagPenalty textContent) (candidates pageA) None None
       = Some (hd (bodyChildren pageA))"
    by simp
  ultimately show ?thesis using c t by (intro conjI)
qed
end
